theory Spec2Isabelle
  imports Main
begin

section \<open>Python strings\<close>

text \<open>
  A Python \<open>str\<close> is a sequence of Unicode code points; it is modelled as a list of
  natural numbers. Literals of the source are written with \<open>ustr\<close>, which maps the
  characters of an ASCII literal to their code points.
\<close>

type_synonym ustring = "nat list"

definition ustr :: "string \<Rightarrow> ustring" where
  "ustr s = map of_char s"

text \<open>
  \<open>str.split()\<close> and \<open>str.strip()\<close> without arguments work on the characters for which
  \<open>str.isspace()\<close> holds: the code points below.
\<close>

definition isspace :: "nat \<Rightarrow> bool" where
  "isspace c = ((9 \<le> c \<and> c \<le> 13) \<or> (28 \<le> c \<and> c \<le> 32) \<or> c = 133 \<or> c = 160 \<or> c = 5760
     \<or> (8192 \<le> c \<and> c \<le> 8202) \<or> c = 8232 \<or> c = 8233 \<or> c = 8239 \<or> c = 8287 \<or> c = 12288)"

text \<open>
  The class \<open>\d\<close> of \<open>re\<close> on \<open>str\<close> patterns is the Unicode category Nd, and \<open>int()\<close>
  reads every such character by its decimal value. The decimal digits come in runs of
  ten, from the zero upwards; \<open>digit_zeros\<close> lists the zero of every run (Unicode 14,
  as in CPython 3.11).
\<close>

definition digit_zeros :: "nat list" where
  "digit_zeros = [48, 1632, 1776, 1984, 2406, 2534, 2662, 2790, 2918, 3046, 3174, 3302,
     3430, 3558, 3664, 3792, 3872, 4160, 4240, 6112, 6160, 6470, 6608, 6784, 6800, 6992,
     7088, 7232, 7248, 42528, 43216, 43264, 43472, 43504, 43600, 44016, 65296, 66720,
     68912, 69734, 69872, 69942, 70096, 70384, 70736, 70864, 71248, 71360, 71472, 71904,
     72016, 72784, 73040, 73120, 92768, 92864, 93008, 120782, 120792, 120802, 120812,
     120822, 123200, 123632, 125264, 130032]"

definition decimal :: "nat \<Rightarrow> nat option" where
  "decimal c = map_option (\<lambda>z. c - z) (find (\<lambda>z. z \<le> c \<and> c < z + 10) digit_zeros)"

definition isdigit :: "nat \<Rightarrow> bool" where
  "isdigit c = (decimal c \<noteq> None)"

text \<open>\<open>int(s)\<close> on a string of decimal digits; \<open>None\<close> stands for its \<open>ValueError\<close>.\<close>

fun int_acc :: "int \<Rightarrow> ustring \<Rightarrow> int option" where
  "int_acc a [] = Some a"
| "int_acc a (c # cs) =
     (case decimal c of None \<Rightarrow> None | Some d \<Rightarrow> int_acc (10 * a + int d) cs)"

definition py_int :: "ustring \<Rightarrow> int option" where
  "py_int s = (if s = [] then None else int_acc 0 s)"

text \<open>\<open>sep.join(parts)\<close>.\<close>

fun join :: "ustring \<Rightarrow> ustring list \<Rightarrow> ustring" where
  "join sep [] = []"
| "join sep [x] = x"
| "join sep (x # y # ys) = x @ sep @ join sep (y # ys)"

text \<open>\<open>s.split()\<close>: the maximal runs of characters that are not whitespace.\<close>

function split_ws :: "ustring \<Rightarrow> ustring list" where
  "split_ws [] = []"
| "split_ws (c # cs) =
     (if isspace c then split_ws cs
      else (c # takeWhile (\<lambda>x. \<not> isspace x) cs) # split_ws (dropWhile (\<lambda>x. \<not> isspace x) cs))"
  by pat_completeness auto
termination
  by (relation "measure length") (auto simp: length_dropWhile_le less_Suc_eq_le)

definition strip :: "ustring \<Rightarrow> ustring" where
  "strip s = rev (dropWhile isspace (rev (dropWhile isspace s)))"

definition replace_nbsp :: "ustring \<Rightarrow> ustring" where
  "replace_nbsp s = map (\<lambda>c. if c = 160 then 32 else c) s"

text \<open>
  \<^verbatim>\<open>def norm(s): return " ".join((s or "").replace("\xa0", " ").split()).strip()\<close>
  An absent value is passed as the empty string by the callers of the model.
\<close>

definition norm :: "ustring \<Rightarrow> ustring" where
  "norm s = strip (join [32] (split_ws (replace_nbsp s)))"

text \<open>\<open>sub in s\<close> on strings.\<close>

fun starts_with :: "ustring \<Rightarrow> ustring \<Rightarrow> bool" where
  "starts_with s [] = True"
| "starts_with [] (p # ps) = False"
| "starts_with (c # cs) (p # ps) = (c = p \<and> starts_with cs ps)"

fun py_in :: "ustring \<Rightarrow> ustring \<Rightarrow> bool" where
  "py_in sub [] = (sub = [])"
| "py_in sub (c # cs) = (starts_with (c # cs) sub \<or> py_in sub cs)"

section \<open>The regular expressions\<close>

text \<open>
  \<open>DATE_RE\<close> and \<open>TIME_RE\<close> are sequences of single-character atoms, \<open>\d\<close> or a literal.
  \<open>match_seq p s\<close> says that \<open>p\<close> matches a prefix of \<open>s\<close>; \<open>first_match m s\<close> is
  \<open>search\<close>: the match at the leftmost position of \<open>s\<close> where the matcher \<open>m\<close> succeeds.
\<close>

datatype atom = Digit | Lit nat

fun atom_ok :: "atom \<Rightarrow> nat \<Rightarrow> bool" where
  "atom_ok Digit c = isdigit c"
| "atom_ok (Lit l) c = (c = l)"

fun match_seq :: "atom list \<Rightarrow> ustring \<Rightarrow> bool" where
  "match_seq [] s = True"
| "match_seq (a # p) [] = False"
| "match_seq (a # p) (c # cs) = (atom_ok a c \<and> match_seq p cs)"

fun first_match :: "(ustring \<Rightarrow> 'a option) \<Rightarrow> ustring \<Rightarrow> 'a option" where
  "first_match m [] = m []"
| "first_match m (c # cs) =
     (case m (c # cs) of Some g \<Rightarrow> Some g | None \<Rightarrow> first_match m cs)"

text \<open>\<^verbatim>\<open>DATE_RE = re.compile(r"(\d{2})\.(\d{2})\.(\d{4})")\<close>; the result is the three groups.\<close>

definition DATE_RE :: "atom list" where
  "DATE_RE = [Digit, Digit, Lit 46, Digit, Digit, Lit 46, Digit, Digit, Digit, Digit]"

definition date_at :: "ustring \<Rightarrow> (ustring \<times> ustring \<times> ustring) option" where
  "date_at s = (if match_seq DATE_RE s
     then Some (take 2 s, take 2 (drop 3 s), take 4 (drop 6 s)) else None)"

definition DATE_RE_search :: "ustring \<Rightarrow> (ustring \<times> ustring \<times> ustring) option" where
  "DATE_RE_search s = first_match date_at s"

text \<open>
  \<^verbatim>\<open>TIME_RE = re.compile(r"(\d{1,2}):(\d{2})")\<close>: at each position the greedy
  \<open>\d{1,2}\<close> first takes two digits and falls back to one.
\<close>

definition time_at :: "ustring \<Rightarrow> (ustring \<times> ustring) option" where
  "time_at s =
     (if match_seq [Digit, Digit, Lit 58, Digit, Digit] s then Some (take 2 s, take 2 (drop 3 s))
      else if match_seq [Digit, Lit 58, Digit, Digit] s then Some (take 1 s, take 2 (drop 2 s))
      else None)"

definition TIME_RE_search :: "ustring \<Rightarrow> (ustring \<times> ustring) option" where
  "TIME_RE_search s = first_match time_at s"

text \<open>
  \<^verbatim>\<open>re.search(r"\d+:\d+", result)\<close>: both runs of digits are greedy, so a match takes the
  whole run of digits on either side of the colon; the result is \<open>group(0)\<close>.
\<close>

definition score_at :: "ustring \<Rightarrow> ustring option" where
  "score_at s =
     (let d1 = takeWhile isdigit s; r = dropWhile isdigit s
      in if d1 = [] then None
         else (case r of [] \<Rightarrow> None
               | c # r' \<Rightarrow>
                   (let d2 = takeWhile isdigit r'
                    in if c = 58 \<and> d2 \<noteq> [] then Some (d1 @ [58] @ d2) else None)))"

definition score_search :: "ustring \<Rightarrow> ustring option" where
  "score_search s = first_match score_at s"

section \<open>Errors\<close>

text \<open>
  The exceptions of the program as values: \<open>ValueError\<close> and \<open>OverflowError\<close> come from
  \<open>datetime\<close>, \<open>RuntimeError\<close> is raised by \<open>parse_team_portrait\<close>, \<open>RequestError\<close>
  stands for whatever \<open>requests.get\<close> or \<open>raise_for_status\<close> raises, \<open>CsvError\<close> is
  the \<open>csv.Error\<close> of the reader of the \<open>csv\<close> module.
\<close>

datatype error = ValueError | OverflowError | RuntimeError | RequestError | CsvError

section \<open>Timestamps\<close>

text \<open>
  \<open>datetime.datetime\<close>, to the minute (the program never sets seconds). The calendar
  arithmetic follows CPython's \<open>datetime\<close> module: \<open>_is_leap\<close>, \<open>_days_before_year\<close>,
  \<open>_days_in_month\<close>, \<open>_days_before_month\<close>, \<open>_ymd2ord\<close> and \<open>_ord2ymd\<close>.
\<close>

record datetime =
  year :: int
  month :: int
  day :: int
  hour :: int
  minute :: int

definition is_leap :: "int \<Rightarrow> bool" where
  "is_leap y = (y mod 4 = 0 \<and> (y mod 100 \<noteq> 0 \<or> y mod 400 = 0))"

definition days_before_year :: "int \<Rightarrow> int" where
  "days_before_year y = (y - 1) * 365 + (y - 1) div 4 - (y - 1) div 100 + (y - 1) div 400"

definition DAYS_IN_MONTH :: "int list" where
  "DAYS_IN_MONTH = [31, 28, 31, 30, 31, 30, 31, 31, 30, 31, 30, 31]"

definition DAYS_BEFORE_MONTH :: "int list" where
  "DAYS_BEFORE_MONTH = [0, 31, 59, 90, 120, 151, 181, 212, 243, 273, 304, 334]"

definition days_in_month :: "int \<Rightarrow> int \<Rightarrow> int" where
  "days_in_month y m = (if m = 2 \<and> is_leap y then 29 else DAYS_IN_MONTH ! nat (m - 1))"

definition days_before_month :: "int \<Rightarrow> int \<Rightarrow> int" where
  "days_before_month y m =
     DAYS_BEFORE_MONTH ! nat (m - 1) + (if m > 2 \<and> is_leap y then 1 else 0)"

definition ymd2ord :: "int \<Rightarrow> int \<Rightarrow> int \<Rightarrow> int" where
  "ymd2ord y m d = days_before_year y + days_before_month y m + d"

definition ord2ymd :: "int \<Rightarrow> int \<times> int \<times> int" where
  "ord2ymd n0 =
     (let n = n0 - 1;
          n400 = n div 146097; n = n mod 146097;
          n100 = n div 36524; n = n mod 36524;
          n4 = n div 1461; n = n mod 1461;
          n1 = n div 365; n = n mod 365;
          y = n400 * 400 + 1 + n100 * 100 + n4 * 4 + n1
      in if n1 = 4 \<or> n100 = 4 then (y - 1, 12, 31)
         else
           (let leapyear = (n1 = 3 \<and> (n4 \<noteq> 24 \<or> n100 = 3));
                m = (n + 50) div 32;
                preceding = DAYS_BEFORE_MONTH ! nat (m - 1) + (if m > 2 \<and> leapyear then 1 else 0)
            in if preceding > n
               then (y, m - 1,
                     n - (preceding - (DAYS_IN_MONTH ! nat (m - 2)
                                        + (if m - 1 = 2 \<and> leapyear then 1 else 0))) + 1)
               else (y, m, n - preceding + 1)))"

text \<open>\<open>datetime(year, month, day, hour, minute)\<close> checks every field and raises \<open>ValueError\<close>.\<close>

definition valid_datetime :: "datetime \<Rightarrow> bool" where
  "valid_datetime dt =
     (1 \<le> year dt \<and> year dt \<le> 9999 \<and> 1 \<le> month dt \<and> month dt \<le> 12
      \<and> 1 \<le> day dt \<and> day dt \<le> days_in_month (year dt) (month dt)
      \<and> 0 \<le> hour dt \<and> hour dt \<le> 23 \<and> 0 \<le> minute dt \<and> minute dt \<le> 59)"

definition make_datetime :: "int \<Rightarrow> int \<Rightarrow> int \<Rightarrow> int \<Rightarrow> int \<Rightarrow> error + datetime" where
  "make_datetime y m d hh mm =
     (let dt = \<lparr>year = y, month = m, day = d, hour = hh, minute = mm\<rparr>
      in if valid_datetime dt then Inr dt else Inl ValueError)"

definition toordinal :: "datetime \<Rightarrow> int" where
  "toordinal dt = ymd2ord (year dt) (month dt) (day dt)"

text \<open>The position of a timestamp on the time line, in minutes.\<close>

definition minutes_of :: "datetime \<Rightarrow> int" where
  "minutes_of dt = toordinal dt * 1440 + hour dt * 60 + minute dt"

text \<open>
  \<open>dt + timedelta(minutes=d)\<close>: the sum is normalised to days and a time of day, the day
  number must lie in \<open>1..3652059\<close> (the years 1 to 9999), else \<open>OverflowError\<close>; a
  \<open>timedelta\<close> too large to build raises the same error.
\<close>

definition add_minutes :: "datetime \<Rightarrow> int \<Rightarrow> error + datetime" where
  "add_minutes dt d =
     (let total = minutes_of dt + d; days = total div 1440; r = total mod 1440
      in if 0 < days \<and> days \<le> 3652059
         then (case ord2ymd days of
                 (y, m, dd) \<Rightarrow>
                   Inr \<lparr>year = y, month = m, day = dd, hour = r div 60, minute = r mod 60\<rparr>)
         else Inl OverflowError)"

text \<open>Python orders timestamps field by field.\<close>

definition dt_less :: "datetime \<Rightarrow> datetime \<Rightarrow> bool" where
  "dt_less a b =
     (year a < year b \<or> (year a = year b \<and>
       (month a < month b \<or> (month a = month b \<and>
         (day a < day b \<or> (day a = day b \<and>
           (hour a < hour b \<or> (hour a = hour b \<and> minute a < minute b))))))))"

text \<open>
  \<open>strftime\<close>: \<open>%m\<close>, \<open>%d\<close>, \<open>%H\<close> and \<open>%M\<close> are two decimal digits. \<open>%Y\<close> is
  the year as the C library prints it: in decimal and without padding, so a year below
  1000 has fewer than four digits.
\<close>

definition two_digits :: "int \<Rightarrow> ustring" where
  "two_digits n = [48 + nat (n div 10 mod 10), 48 + nat (n mod 10)]"

definition year_digits :: "int \<Rightarrow> ustring" where
  "year_digits n =
     (if n < 10 then [48 + nat (n mod 10)]
      else if n < 100 then [48 + nat (n div 10 mod 10), 48 + nat (n mod 10)]
      else if n < 1000
        then [48 + nat (n div 100 mod 10), 48 + nat (n div 10 mod 10), 48 + nat (n mod 10)]
      else [48 + nat (n div 1000 mod 10), 48 + nat (n div 100 mod 10),
            48 + nat (n div 10 mod 10), 48 + nat (n mod 10)])"

definition fmt_date :: "datetime \<Rightarrow> ustring" where
  "fmt_date dt = two_digits (month dt) @ [47] @ two_digits (day dt) @ [47] @ year_digits (year dt)"

definition fmt_time :: "datetime \<Rightarrow> ustring" where
  "fmt_time dt = two_digits (hour dt) @ [58] @ two_digits (minute dt)"

text \<open>
  \<open>parse_datetime\<close>: \<open>Inr None\<close> is the returned \<open>None\<close>, \<open>Inl ValueError\<close> the exception
  of the \<open>datetime\<close> constructor.
\<close>

definition time_fields :: "ustring \<Rightarrow> (int \<times> int) option" where
  "time_fields time_text =
     (case TIME_RE_search time_text of
        None \<Rightarrow> Some (0, 0)
      | Some (g1, g2) \<Rightarrow>
          (case (py_int g1, py_int g2) of (Some hh, Some mm) \<Rightarrow> Some (hh, mm) | _ \<Rightarrow> None))"

definition parse_datetime :: "ustring \<Rightarrow> ustring option \<Rightarrow> error + datetime option" where
  "parse_datetime date_text time_text =
     (let date_text = norm date_text;
          time_text = norm (case time_text of None \<Rightarrow> [] | Some t \<Rightarrow> t)
      in case DATE_RE_search date_text of
           None \<Rightarrow> Inr None
         | Some (g1, g2, g3) \<Rightarrow>
             (case (py_int g1, py_int g2, py_int g3, time_fields time_text) of
                (Some d, Some m, Some y, Some (hh, mm)) \<Rightarrow>
                  map_sum id Some (make_datetime y m d hh mm)
              | _ \<Rightarrow> Inl ValueError))"

section \<open>Parsed HTML\<close>

text \<open>
  A BeautifulSoup tree: a text node, or a tag with its name, its attributes and its
  children. The document itself is a tag whose children are the top-level nodes.
\<close>

datatype node = Text ustring | Elem ustring "(ustring \<times> ustring) list" "node list"

fun tag_name :: "node \<Rightarrow> ustring" where
  "tag_name (Text s) = []"
| "tag_name (Elem n as ks) = n"

fun attrs :: "node \<Rightarrow> (ustring \<times> ustring) list" where
  "attrs (Text s) = []"
| "attrs (Elem n as ks) = as"

text \<open>
  The strings that \<open>get_text\<close> reads below a tag, in document order. The parser gives
  the strings inside \<open>script\<close>, \<open>style\<close> and \<open>template\<close> a type of their own, by the
  innermost such tag around them, and \<open>get_text\<close> yields only the strings of the type
  the tag it is called on looks for: the strings of that kind when the tag is itself one
  of the three, the ordinary strings otherwise. The tag is taken not to lie inside one of
  the three itself. Comments are no text nodes of the tree.
\<close>

definition string_containers :: "ustring list" where
  "string_containers = [ustr ''script'', ustr ''style'', ustr ''template'']"

definition container_of :: "ustring \<Rightarrow> ustring" where
  "container_of nm = (if nm \<in> set string_containers then nm else [])"

fun strings_of_kind :: "ustring \<Rightarrow> ustring \<Rightarrow> node \<Rightarrow> ustring list" where
  "strings_of_kind want kind (Text s) = (if kind = want then [s] else [])"
| "strings_of_kind want kind (Elem n as ks) =
     concat (map (strings_of_kind want (if n \<in> set string_containers then n else kind)) ks)"

definition strings :: "node \<Rightarrow> ustring list" where
  "strings n = strings_of_kind (container_of (tag_name n)) [] n"

text \<open>
  \<open>tag.get_text(sep, strip=...)\<close>: with \<open>strip=True\<close> every string is stripped and the
  empty ones are dropped, before the strings are joined with the separator.
\<close>

definition get_text :: "ustring \<Rightarrow> bool \<Rightarrow> node \<Rightarrow> ustring" where
  "get_text sep strp n =
     join sep (if strp then filter (\<lambda>s. s \<noteq> []) (map strip (strings n)) else strings n)"

text \<open>The tags of a subtree in document order, the root first; and the tags below a tag.\<close>

fun elements :: "node \<Rightarrow> node list" where
  "elements (Text s) = []"
| "elements (Elem n as ks) = Elem n as ks # concat (map elements ks)"

fun descendants :: "node \<Rightarrow> node list" where
  "descendants (Text s) = []"
| "descendants (Elem n as ks) = concat (map elements ks)"

definition find_all :: "ustring list \<Rightarrow> node \<Rightarrow> node list" where
  "find_all names n = filter (\<lambda>e. tag_name e \<in> set names) (descendants n)"

definition find_tag :: "ustring \<Rightarrow> node \<Rightarrow> node option" where
  "find_tag nm n = find (\<lambda>e. tag_name e = nm) (descendants n)"

text \<open>The pattern \<^verbatim>\<open>^h[1-4]$\<close> on a tag name; \<open>$\<close> also matches before a final newline.\<close>

definition is_h1_4 :: "ustring \<Rightarrow> bool" where
  "is_h1_4 nm = (case nm of
       [h, d] \<Rightarrow> h = 104 \<and> 49 \<le> d \<and> d \<le> 52
     | [h, d, e] \<Rightarrow> h = 104 \<and> 49 \<le> d \<and> d \<le> 52 \<and> e = 10
     | _ \<Rightarrow> False)"

section \<open>The network\<close>

text \<open>
  What the program takes from outside: the answer of \<open>requests.get\<close> for a URL (the body,
  or the exception of the request or of \<open>raise_for_status\<close>), \<open>urllib.parse.urljoin\<close>
  (which raises \<open>ValueError\<close> on some malformed URLs) and the tree that
  \<open>BeautifulSoup(html, "html.parser")\<close> builds.
\<close>

record world =
  http_get :: "ustring \<Rightarrow> error + ustring"
  url_join :: "ustring \<Rightarrow> ustring \<Rightarrow> error + ustring"
  html_parser :: "ustring \<Rightarrow> node"

definition fetch :: "world \<Rightarrow> ustring \<Rightarrow> error + ustring" where
  "fetch w url = http_get w url"

section \<open>Schedule tables\<close>

text \<open>
  \<open>find_schedule_tables\<close>, on the tags of the page in document order: for every \<open>h2\<close> or
  \<open>h3\<close> whose text contains the marker, the first \<open>table\<close> after it, if there is one.
\<close>

fun schedule_tables :: "node list \<Rightarrow> node list" where
  "schedule_tables [] = []"
| "schedule_tables (heading # rest) =
     (if tag_name heading \<in> set [ustr ''h2'', ustr ''h3'']
         \<and> py_in (ustr ''Spieltermine'') (get_text [] False heading)
      then (case find (\<lambda>e. tag_name e = ustr ''table'') rest of
              None \<Rightarrow> schedule_tables rest
            | Some tbl \<Rightarrow> tbl # schedule_tables rest)
      else schedule_tables rest)"

definition find_schedule_tables :: "node \<Rightarrow> node list" where
  "find_schedule_tables soup = schedule_tables (descendants soup)"

section \<open>Venue enrichment\<close>

text \<open>
  The inner loop of \<open>hall_address_from_cell\<close> over \<open>tag.find_all_next()\<close>, the tags after
  the marker heading in document order, with the lines collected so far.
\<close>

fun collect_blocks :: "ustring list \<Rightarrow> node list \<Rightarrow> ustring list" where
  "collect_blocks addr_lines [] = addr_lines"
| "collect_blocks addr_lines (sib # sibs) =
     (if is_h1_4 (tag_name sib) then addr_lines
      else
        (let text = norm (get_text [32] True sib);
             addr_lines =
               (if tag_name sib \<in> set [ustr ''p'', ustr ''div'', ustr ''address''] \<and> text \<noteq> []
                then addr_lines @ [text] else addr_lines)
         in if length addr_lines \<ge> 3 then addr_lines else collect_blocks addr_lines sibs))"

text \<open>
  The outer loop over the tags of the hall page: the first \<open>h1\<close> to \<open>h4\<close> whose text
  contains the marker starts the collection, and the loop ends there.
\<close>

fun address_lines :: "node list \<Rightarrow> ustring list" where
  "address_lines [] = []"
| "address_lines (tag # rest) =
     (if is_h1_4 (tag_name tag) \<and> py_in (ustr ''Hallenadresse'') (get_text [] False tag)
      then collect_blocks [] rest
      else address_lines rest)"

text \<open>
  For the statements about the loops: the test of the outer loop, and the texts the inner
  loop appends, for a list of tags.
\<close>

definition is_marker_heading :: "node \<Rightarrow> bool" where
  "is_marker_heading tag =
     (is_h1_4 (tag_name tag) \<and> py_in (ustr ''Hallenadresse'') (get_text [] False tag))"

definition block_texts :: "node list \<Rightarrow> ustring list" where
  "block_texts es =
     filter (\<lambda>t. t \<noteq> [])
       (map (\<lambda>e. norm (get_text [32] True e))
          (filter (\<lambda>e. tag_name e \<in> set [ustr ''p'', ustr ''div'', ustr ''address'']) es))"

definition hall_address_from_cell :: "world \<Rightarrow> node \<Rightarrow> ustring \<Rightarrow> error + ustring" where
  "hall_address_from_cell w cell page_url =
     (let fallback = norm (get_text [32] True cell)
      in case find_tag (ustr ''a'') cell of
           None \<Rightarrow> Inr fallback
         | Some a \<Rightarrow>
             (case map_of (attrs a) (ustr ''href'') of
                None \<Rightarrow> Inr fallback
              | Some href \<Rightarrow>
                  if href = [] then Inr fallback
                  else
                    (case url_join w page_url href of
                       Inl e \<Rightarrow> Inl e
                     | Inr hall_url \<Rightarrow>
                         (case fetch w hall_url of
                            Inl e \<Rightarrow> Inr fallback
                          | Inr html \<Rightarrow>
                              (let hs = html_parser w html;
                                   addr_lines = address_lines (descendants hs);
                                   code = norm (get_text [] True a);
                                   addr = (if addr_lines \<noteq> [] then join (ustr '' | '') addr_lines
                                           else fallback)
                               in Inr (if code \<noteq> [] \<and> \<not> py_in code addr
                                       then code @ [32, 8211, 32] @ addr else addr))))))"

section \<open>Rows\<close>

text \<open>The record appended to \<open>rows_out\<close>: the nine columns of the CSV file.\<close>

record match_record =
  Subject :: ustring
  Start_Date :: ustring
  Start_Time :: ustring
  End_Date :: ustring
  End_Time :: ustring
  All_Day_Event :: ustring
  Description :: ustring
  Location :: ustring
  Private :: ustring

definition cell_text :: "node \<Rightarrow> ustring" where
  "cell_text td = norm (get_text [32] True td)"

text \<open>
  The start and the end of the match of a row with at least seven cells: \<open>Inr None\<close>
  when the row is skipped, an error when \<open>datetime\<close> raises.
\<close>

definition row_times :: "node list \<Rightarrow> int \<Rightarrow> error + (datetime \<times> datetime) option" where
  "row_times tds default_duration =
     (let date_txt = cell_text (tds ! 1);
          time_txt = cell_text (tds ! 2)
      in if DATE_RE_search date_txt = None then Inr None
         else
           (case parse_datetime date_txt (Some (if time_txt = [] then ustr ''19:30'' else time_txt)) of
              Inl e \<Rightarrow> Inl e
            | Inr None \<Rightarrow> Inr None
            | Inr (Some start_dt) \<Rightarrow>
                (case add_minutes start_dt default_duration of
                   Inl e \<Rightarrow> Inl e
                 | Inr end_dt \<Rightarrow> Inr (Some (start_dt, end_dt)))))"

definition description_of :: "ustring \<Rightarrow> ustring \<Rightarrow> ustring" where
  "description_of nr_txt result =
     (let desc_parts = (if nr_txt \<noteq> [] then [ustr ''Spiel Nr.: '' @ nr_txt] else []);
          desc_parts =
            (if result \<noteq> []
             then (case score_search result of
                     None \<Rightarrow> desc_parts
                   | Some mscore \<Rightarrow> desc_parts @ [ustr ''Ergebnis: '' @ mscore])
             else desc_parts)
      in join (ustr '' | '') desc_parts)"

text \<open>
  The body of the loop over the rows of a table, on the \<open>td\<close> cells of one row:
  \<open>Inr None\<close> is \<open>continue\<close>, \<open>Inr (Some r)\<close> the record appended.
\<close>

definition parse_row ::
  "world \<Rightarrow> ustring \<Rightarrow> int \<Rightarrow> bool \<Rightarrow> node list \<Rightarrow> error + match_record option" where
  "parse_row w url default_duration enrich_halls tds =
     (if length tds < 7 then Inr None
      else
        (let hall_cell = tds ! 3;
             nr_txt = (if length tds \<ge> 5 then cell_text (tds ! 4) else []);
             home = (if length tds \<ge> 6 then cell_text (tds ! 5) else []);
             away = (if length tds \<ge> 7 then cell_text (tds ! 6) else []);
             result = (if length tds \<ge> 8 then cell_text (tds ! 7) else [])
         in case row_times tds default_duration of
              Inl e \<Rightarrow> Inl e
            | Inr None \<Rightarrow> Inr None
            | Inr (Some (start_dt, end_dt)) \<Rightarrow>
                (case (if enrich_halls then hall_address_from_cell w hall_cell url
                       else Inr (cell_text hall_cell)) of
                   Inl e \<Rightarrow> Inl e
                 | Inr location \<Rightarrow>
                     Inr (Some \<lparr>Subject = home @ ustr '' vs. '' @ away,
                                Start_Date = fmt_date start_dt,
                                Start_Time = fmt_time start_dt,
                                End_Date = fmt_date end_dt,
                                End_Time = fmt_time end_dt,
                                All_Day_Event = ustr ''False'',
                                Description = description_of nr_txt result,
                                Location = location,
                                Private = ustr ''False''\<rparr>))))"

text \<open>The loops of \<open>parse_team_portrait\<close>: an exception ends them.\<close>

fun parse_rows ::
  "world \<Rightarrow> ustring \<Rightarrow> int \<Rightarrow> bool \<Rightarrow> node list list \<Rightarrow> error + match_record list" where
  "parse_rows w url d e [] = Inr []"
| "parse_rows w url d e (tds # rest) =
     (case parse_row w url d e tds of
        Inl err \<Rightarrow> Inl err
      | Inr None \<Rightarrow> parse_rows w url d e rest
      | Inr (Some r) \<Rightarrow>
          (case parse_rows w url d e rest of Inl err \<Rightarrow> Inl err | Inr rs \<Rightarrow> Inr (r # rs)))"

definition table_rows :: "node \<Rightarrow> node list list" where
  "table_rows tbl = map (find_all [ustr ''td'']) (find_all [ustr ''tr''] tbl)"

definition parse_team_portrait ::
  "world \<Rightarrow> ustring \<Rightarrow> int \<Rightarrow> bool \<Rightarrow> error + match_record list" where
  "parse_team_portrait w url default_duration enrich_halls =
     (case fetch w url of
        Inl e \<Rightarrow> Inl e
      | Inr html \<Rightarrow>
          (let soup = html_parser w html; tables = find_schedule_tables soup
           in if tables = [] then Inl RuntimeError
              else parse_rows w url default_duration enrich_halls
                     (concat (map table_rows tables))))"

section \<open>The CSV file\<close>























section \<open>The command line\<close>

text \<open>
  The arguments after \<open>argparse\<close>: \<open>--duration\<close> has \<open>type=int\<close> and no further check, so
  every integer is accepted.
\<close>

record arguments =
  arg_url :: ustring
  arg_out :: ustring
  arg_duration :: int
  arg_no_enrich :: bool

definition main_rows :: "world \<Rightarrow> arguments \<Rightarrow> error + match_record list" where
  "main_rows w args =
     parse_team_portrait w (arg_url args) (arg_duration args) (\<not> arg_no_enrich args)"

section \<open>Notions of the specification\<close>

text \<open>
  From the specification, not from the code: the text \<open>s\<close> has a substring of the form
  DD.MM.YYYY (two, two and four decimal digits between dots) that starts at offset \<open>k\<close>.
\<close>

definition date_substring_at :: "ustring \<Rightarrow> nat \<Rightarrow> bool" where
  "date_substring_at s k =
     (k + 10 \<le> length s
      \<and> isdigit (s ! k) \<and> isdigit (s ! (k + 1)) \<and> s ! (k + 2) = 46
      \<and> isdigit (s ! (k + 3)) \<and> isdigit (s ! (k + 4)) \<and> s ! (k + 5) = 46
      \<and> isdigit (s ! (k + 6)) \<and> isdigit (s ! (k + 7))
      \<and> isdigit (s ! (k + 8)) \<and> isdigit (s ! (k + 9)))"

text \<open>
  From the specification, not from the code: the level of a heading tag, and the
  collection as the specification words it, which takes up to three block texts after the
  marker heading and stops early at another heading of equal or higher level, that is at
  a level number not above that of the marker heading.
\<close>

definition heading_level :: "ustring \<Rightarrow> nat option" where
  "heading_level nm = (case nm of
       [h, d] \<Rightarrow> if h = 104 \<and> 49 \<le> d \<and> d \<le> 54 then Some (d - 48) else None
     | _ \<Rightarrow> None)"

fun spec_collect :: "nat \<Rightarrow> ustring list \<Rightarrow> node list \<Rightarrow> ustring list" where
  "spec_collect lvl addr_lines [] = addr_lines"
| "spec_collect lvl addr_lines (sib # sibs) =
     (if (case heading_level (tag_name sib) of None \<Rightarrow> False | Some l \<Rightarrow> l \<le> lvl) then addr_lines
      else
        (let text = norm (get_text [32] True sib);
             addr_lines =
               (if tag_name sib \<in> set [ustr ''p'', ustr ''div'', ustr ''address''] \<and> text \<noteq> []
                then addr_lines @ [text] else addr_lines)
         in if length addr_lines \<ge> 3 then addr_lines else spec_collect lvl addr_lines sibs))"

section \<open>Example data\<close>

text \<open>
  A row of the schedule table as the site renders it, the same row with another weekday
  cell and a ninth cell, and a world in which no request succeeds.
\<close>

definition td :: "string \<Rightarrow> node" where
  "td s = Elem (ustr ''td'') [] [Text (ustr s)]"

definition hall_link_cell :: node where
  "hall_link_cell =
     Elem (ustr ''td'') [] [Elem (ustr ''a'') [(ustr ''href'', ustr ''/halle/1'')] [Text (ustr ''TU'')]]"

definition example_row :: "node list" where
  "example_row = [td ''Fr'', td ''03.10.2025'', td ''19:30 Uhr'', hall_link_cell,
                  td ''12'', td ''Team A'', td ''Team B'', td ''3:1'']"

definition example_row_padded :: "node list" where
  "example_row_padded = [td ''Sa'', td ''03.10.2025'', td ''19:30 Uhr'', hall_link_cell,
                         td ''12'', td ''Team A'', td ''Team B'', td ''3:1'', td ''Bericht'']"

definition offline :: world where
  "offline = \<lparr>http_get = (\<lambda>url. Inl RequestError),
              url_join = (\<lambda>base href. Inr href),
              html_parser = (\<lambda>html. Elem (ustr ''[document]'') [] [])\<rparr>"

definition page_url :: ustring where
  "page_url = ustr ''https://example.org/teamPortrait''"

definition kickoff :: datetime where
  "kickoff = \<lparr>year = 2025, month = 10, day = 3, hour = 19, minute = 30\<rparr>"

text \<open>A page with one schedule table of one row, and a site that serves it.\<close>

definition example_page :: node where
  "example_page =
     Elem (ustr ''[document]'') []
       [Elem (ustr ''h2'') [] [Text (ustr ''Spieltermine Vorrunde'')],
        Elem (ustr ''table'') [] [Elem (ustr ''tr'') [] example_row]]"

definition example_site :: world where
  "example_site = \<lparr>http_get = (\<lambda>url. Inr (ustr ''<html>'')),
                   url_join = (\<lambda>base href. Inr href),
                   html_parser = (\<lambda>html. example_page)\<rparr>"

definition zero_duration_args :: arguments where
  "zero_duration_args = \<lparr>arg_url = page_url, arg_out = ustr ''team_events.csv'',
                          arg_duration = 0, arg_no_enrich = True\<rparr>"

text \<open>The example row with an empty time cell, and with a time cell that holds no time.\<close>

definition example_row_no_time :: "node list" where
  "example_row_no_time = example_row[2 := td '''']"

definition example_row_open_time :: "node list" where
  "example_row_open_time = example_row[2 := td ''offen'']"

text \<open>
  Tags of hall pages: a subheading between the marker heading and the address, and a page
  with two address blocks before the next heading; and a venue cell whose link text is
  split over two tags.
\<close>

definition el :: "string \<Rightarrow> string \<Rightarrow> node" where
  "el nm s = Elem (ustr nm) [] [Text (ustr s)]"

definition after_subheading :: "node list" where
  "after_subheading = [el ''h3'' ''Anfahrt'', el ''p'' ''Musterstr. 1'']"

definition hall_tags :: "node list" where
  "hall_tags = [el ''h1'' ''Sporthalle'', el ''h2'' ''Hallenadresse'', el ''p'' ''Musterstr. 1'',
                el ''span'' ''Eingang B'', el ''div'' ''13353 Berlin'', el ''h5'' ''Hinweis'',
                el ''h2'' ''Kontakt'', el ''p'' ''Tel. 030'']"

definition split_link_cell :: node where
  "split_link_cell =
     Elem (ustr ''td'') []
       [Elem (ustr ''a'') [(ustr ''href'', ustr ''/halle/1'')]
          [Elem (ustr ''b'') [] [Text (ustr ''T'')], Elem (ustr ''b'') [] [Text (ustr ''U'')]]]"



section \<open>Evaluation\<close>

lemma decimal_ascii:
  "c < 1632 \<Longrightarrow> decimal c = (if 48 \<le> c \<and> c \<le> 57 then Some (c - 48) else None)"
  by (auto simp: decimal_def digit_zeros_def)

lemma isdigit_ascii: "c < 1632 \<Longrightarrow> isdigit c = (48 \<le> c \<and> c \<le> 57)"
  by (simp add: isdigit_def decimal_ascii)

lemmas eval_text =
  ustr_def td_def cell_text_def get_text_def strings_def container_of_def string_containers_def
  norm_def replace_nbsp_def strip_def isspace_def

lemmas eval_re =
  DATE_RE_search_def date_at_def DATE_RE_def isdigit_ascii TIME_RE_search_def time_at_def
  py_int_def decimal_ascii time_fields_def score_search_def score_at_def

lemmas eval_dt =
  parse_datetime_def make_datetime_def valid_datetime_def days_in_month_def DAYS_IN_MONTH_def
  is_leap_def add_minutes_def minutes_of_def toordinal_def ymd2ord_def days_before_year_def
  days_before_month_def DAYS_BEFORE_MONTH_def ord2ymd_def Let_def fmt_date_def fmt_time_def
  two_digits_def year_digits_def

lemma example_row_times:
  "row_times example_row 90 =
     Inr (Some (\<lparr>year = 2025, month = 10, day = 3, hour = 19, minute = 30\<rparr>,
                \<lparr>year = 2025, month = 10, day = 3, hour = 21, minute = 0\<rparr>))"
  by (simp add: row_times_def example_row_def eval_text eval_re eval_dt)

lemma example_row_record:
  "parse_row w url 90 False example_row =
     Inr (Some \<lparr>Subject = ustr ''Team A vs. Team B'',
                Start_Date = ustr ''10/03/2025'',
                Start_Time = ustr ''19:30'',
                End_Date = ustr ''10/03/2025'',
                End_Time = ustr ''21:00'',
                All_Day_Event = ustr ''False'',
                Description = ustr ''Spiel Nr.: 12 | Ergebnis: 3:1'',
                Location = ustr ''TU'',
                Private = ustr ''False''\<rparr>)"
  unfolding parse_row_def example_row_times
  by (simp add: example_row_def hall_link_cell_def description_of_def eval_text eval_re
      fmt_date_def fmt_time_def two_digits_def year_digits_def)

section \<open>Calendar arithmetic\<close>

lemma upto12: "[1..12::int] = [1,2,3,4,5,6,7,8,9,10,11,12]"
  by (simp add: upto.simps)

lemma mcases:
  fixes m0 :: int
  assumes "1 \<le> m0" "m0 \<le> 12"
  shows "m0 = 1 \<or> m0 = 2 \<or> m0 = 3 \<or> m0 = 4 \<or> m0 = 5 \<or> m0 = 6 \<or> m0 = 7 \<or> m0 = 8
        \<or> m0 = 9 \<or> m0 = 10 \<or> m0 = 11 \<or> m0 = 12"
proof -
  have "m0 \<in> set [1..12]" using assms by simp
  then show ?thesis unfolding upto12 by simp
qed

lemma nth_tab:
  "[x0, x1, x2, x3, x4, x5, x6, x7, x8, x9, x10, x11] ! 0 = x0"
  "[x0, x1, x2, x3, x4, x5, x6, x7, x8, x9, x10, x11] ! 1 = x1"
  "[x0, x1, x2, x3, x4, x5, x6, x7, x8, x9, x10, x11] ! 2 = x2"
  "[x0, x1, x2, x3, x4, x5, x6, x7, x8, x9, x10, x11] ! 3 = x3"
  "[x0, x1, x2, x3, x4, x5, x6, x7, x8, x9, x10, x11] ! 4 = x4"
  "[x0, x1, x2, x3, x4, x5, x6, x7, x8, x9, x10, x11] ! 5 = x5"
  "[x0, x1, x2, x3, x4, x5, x6, x7, x8, x9, x10, x11] ! 6 = x6"
  "[x0, x1, x2, x3, x4, x5, x6, x7, x8, x9, x10, x11] ! 7 = x7"
  "[x0, x1, x2, x3, x4, x5, x6, x7, x8, x9, x10, x11] ! 8 = x8"
  "[x0, x1, x2, x3, x4, x5, x6, x7, x8, x9, x10, x11] ! 9 = x9"
  "[x0, x1, x2, x3, x4, x5, x6, x7, x8, x9, x10, x11] ! 10 = x10"
  "[x0, x1, x2, x3, x4, x5, x6, x7, x8, x9, x10, x11] ! 11 = x11"
  by (simp_all add: eval_nat_numeral)

lemma month_part:
  fixes r :: int
  assumes r: "0 \<le> r" "r < 365"
    and m0: "m0 = (r + 50) div 32"
    and pre: "pre = DAYS_BEFORE_MONTH ! nat (m0 - 1) + (if m0 > 2 \<and> leap then 1 else 0)"
    and res: "(m, d) = (if pre > r
        then (m0 - 1, r - (pre - (DAYS_IN_MONTH ! nat (m0 - 2) + (if m0 - 1 = 2 \<and> leap then 1 else 0))) + 1)
        else (m0, r - pre + 1))"
  shows "1 \<le> m \<and> m \<le> 12 \<and> 1 \<le> d
     \<and> d \<le> (if m = 2 \<and> leap then 29 else DAYS_IN_MONTH ! nat (m - 1))
     \<and> DAYS_BEFORE_MONTH ! nat (m - 1) + (if m > 2 \<and> leap then 1 else 0) + d = r + 1"
proof -
  have rng: "32 * m0 - 50 \<le> r" "r \<le> 32 * m0 - 19"
    using m0 by arith+
  have "1 \<le> m0" "m0 \<le> 12" using r rng by arith+
  then have "m0 = 1 \<or> m0 = 2 \<or> m0 = 3 \<or> m0 = 4 \<or> m0 = 5 \<or> m0 = 6 \<or> m0 = 7 \<or> m0 = 8
        \<or> m0 = 9 \<or> m0 = 10 \<or> m0 = 11 \<or> m0 = 12"
    by (rule mcases)
  then show ?thesis
    using r rng pre res
    by (elim disjE; cases leap; cases "pre > r";
        simp add: DAYS_BEFORE_MONTH_def DAYS_IN_MONTH_def nth_tab)
qed

lemma dby_decomp:
  fixes a b c e :: int
  assumes "0 \<le> a" "0 \<le> b" "b < 4" "0 \<le> c" "c < 25" "0 \<le> e" "e < 4"
  shows "days_before_year (400 * a + 100 * b + 4 * c + e + 1)
           = 146097 * a + 36524 * b + 1461 * c + 365 * e"
proof -
  have d4: "(400 * a + 100 * b + 4 * c + e) div 4 = 100 * a + 25 * b + c"
    by (rule int_div_pos_eq [where r = e]) (use assms in auto)
  have d100: "(400 * a + 100 * b + 4 * c + e) div 100 = 4 * a + b"
    by (rule int_div_pos_eq [where r = "4 * c + e"]) (use assms in auto)
  have d400: "(400 * a + 100 * b + 4 * c + e) div 400 = a"
    by (rule int_div_pos_eq [where r = "100 * b + 4 * c + e"]) (use assms in auto)
  show ?thesis
    by (simp add: days_before_year_def d4 d100 d400)
qed

lemma mod_zero_decomp:
  fixes k q r :: int
  assumes "0 < k" "0 \<le> r" "r \<le> k"
  shows "((k * q + r) mod k = 0) = (r = 0 \<or> r = k)"
proof (cases "r = k")
  case True
  then show ?thesis by simp
next
  case False
  with assms have "(k * q + r) mod k = r"
    by (intro int_mod_pos_eq [where q = q]) auto
  with False show ?thesis by simp
qed

lemma leap_decomp:
  fixes a b c e :: int
  assumes "0 \<le> a" "0 \<le> b" "b < 4" "0 \<le> c" "c < 25" "0 \<le> e" "e < 4"
  shows "is_leap (400 * a + 100 * b + 4 * c + e + 1) = (e = 3 \<and> (c \<noteq> 24 \<or> b = 3))"
proof -
  have m4: "((400 * a + 100 * b + 4 * c + e + 1) mod 4 = 0) = (e = 3)"
    using mod_zero_decomp [of 4 "e + 1" "100 * a + 25 * b + c"] assms
    by (simp add: algebra_simps)
  have ecases: "e = 0 \<or> e = 1 \<or> e = 2 \<or> e = 3"
    using assms by arith
  have s100: "(4 * c + e + 1 = 100) = (e = 3 \<and> c = 24)"
    using assms(4-7) by presburger
  have s400: "(100 * b + 4 * c + e + 1 = 400) = (e = 3 \<and> c = 24 \<and> b = 3)"
  proof -
    have "b = 0 \<or> b = 1 \<or> b = 2 \<or> b = 3"
      using assms by arith
    then show ?thesis
      using s100 assms by auto
  qed
  have "((400 * a + 100 * b + 4 * c + e + 1) mod 100 = 0) = (4 * c + e + 1 = 100)"
    using mod_zero_decomp [of 100 "4 * c + e + 1" "4 * a + b"] assms
    by (simp add: algebra_simps)
  then have m100: "((400 * a + 100 * b + 4 * c + e + 1) mod 100 = 0) = (e = 3 \<and> c = 24)"
    using s100 by simp
  have "((400 * a + 100 * b + 4 * c + e + 1) mod 400 = 0) = (100 * b + 4 * c + e + 1 = 400)"
    using mod_zero_decomp [of 400 "100 * b + 4 * c + e + 1" a] assms
    by (simp add: algebra_simps)
  then have m400: "((400 * a + 100 * b + 4 * c + e + 1) mod 400 = 0) = (e = 3 \<and> c = 24 \<and> b = 3)"
    using s400 by simp
  show ?thesis
    unfolding is_leap_def m4 m100 m400 by blast
qed

lemma year_bound:
  fixes a b c e r N :: int
  assumes "N = 146097 * a + 36524 * b + 1461 * c + 365 * e + r" "N \<le> 3652058"
    and "0 \<le> a" "0 \<le> b" "b \<le> 3" "0 \<le> c" "c \<le> 24" "0 \<le> e" "e \<le> 3" "0 \<le> r"
  shows "400 * a + 100 * b + 4 * c + e \<le> 9998"
proof -
  have a24: "a \<le> 24" using assms by arith
  show ?thesis
  proof (cases "a = 24")
    case False
    with a24 assms show ?thesis by arith
  next
    case a: True
    show ?thesis
    proof (cases "b = 3")
      case False
      with a assms show ?thesis by arith
    next
      case b: True
      show ?thesis
      proof (cases "c = 24")
        case False
        with a b assms show ?thesis by arith
      next
        case True
        with a b assms show ?thesis by arith
      qed
    qed
  qed
qed

lemma ord2ymd_correct:
  assumes n: "1 \<le> n" "n \<le> 3652059" and res: "ord2ymd n = (y, m, d)"
  shows "ymd2ord y m d = n \<and> 1 \<le> y \<and> y \<le> 9999 \<and> 1 \<le> m \<and> m \<le> 12 \<and> 1 \<le> d
         \<and> d \<le> days_in_month y m"
proof -
  define N where "N = n - 1"
  define a where "a = N div 146097"
  define r1 where "r1 = N mod 146097"
  define b where "b = r1 div 36524"
  define r2 where "r2 = r1 mod 36524"
  define c where "c = r2 div 1461"
  define r3 where "r3 = r2 mod 1461"
  define e where "e = r3 div 365"
  define r4 where "r4 = r3 mod 365"
  define Y where "Y = a * 400 + 1 + b * 100 + c * 4 + e"
  define leapyear where "leapyear = (e = 3 \<and> (c \<noteq> 24 \<or> b = 3))"
  define m0 where "m0 = (r4 + 50) div 32"
  define pre where "pre = DAYS_BEFORE_MONTH ! nat (m0 - 1) + (if m0 > 2 \<and> leapyear then 1 else 0)"
  have unf: "ord2ymd n =
      (if e = 4 \<or> b = 4 then (Y - 1, 12, 31)
       else if pre > r4
         then (Y, m0 - 1, r4 - (pre - (DAYS_IN_MONTH ! nat (m0 - 2)
                                  + (if m0 - 1 = 2 \<and> leapyear then 1 else 0))) + 1)
         else (Y, m0, r4 - pre + 1))"
    unfolding ord2ymd_def Let_def pre_def m0_def leapyear_def Y_def r4_def e_def r3_def c_def
      r2_def b_def r1_def a_def N_def
    by (rule refl)
  have N: "0 \<le> N" "N \<le> 3652058" using n by (simp_all add: N_def)
  have e1: "N = 146097 * a + r1" "0 \<le> r1" "r1 < 146097"
    by (simp_all add: a_def r1_def)
  have e2: "r1 = 36524 * b + r2" "0 \<le> r2" "r2 < 36524"
    by (simp_all add: b_def r2_def)
  have e3: "r2 = 1461 * c + r3" "0 \<le> r3" "r3 < 1461"
    by (simp_all add: c_def r3_def)
  have e4: "r3 = 365 * e + r4" "0 \<le> r4" "r4 < 365"
    by (simp_all add: e_def r4_def)
  have a0: "0 \<le> a" using N e1 by arith
  have b0: "0 \<le> b" "b \<le> 4" using e1 e2 by arith+
  have c0: "0 \<le> c" "c \<le> 24" using e2 e3 by arith+
  have e0: "0 \<le> e" "e \<le> 4" using e3 e4 by arith+
  have nN: "n = N + 1" by (simp add: N_def)
  show ?thesis
  proof (cases "b = 4")
    case b4: True
    have z: "r2 = 0" using e1 e2 b4 by arith
    have c: "c = 0" "r3 = 0" using z by (simp_all add: c_def r3_def)
    have e: "e = 0" "r4 = 0" using c by (simp_all add: e_def r4_def)
    from unf res b4 have ymd: "y = Y - 1" "m = 12" "d = 31" by simp_all
    have y: "y = 400 * a + 100 * 3 + 4 * 24 + 3 + 1"
      using ymd b4 c e by (simp add: Y_def)
    have dby: "days_before_year y = 146097 * a + 36524 * 3 + 1461 * 24 + 365 * 3"
      unfolding y using a0 by (intro dby_decomp) simp_all
    have leap: "is_leap y"
      unfolding y using a0 leap_decomp [of a 3 24 3] by simp
    have Neq: "N = 146097 * a + 146096" using e1 e2 b4 z by simp
    have yb: "400 * a + 100 * 3 + 4 * 24 + 3 \<le> 9998"
      by (rule year_bound [where N = N and r = 365]) (use Neq N a0 in simp_all)
    show ?thesis
      using dby leap Neq nN ymd(2,3) yb a0 y
      by (simp add: ymd2ord_def days_before_month_def days_in_month_def DAYS_BEFORE_MONTH_def
          DAYS_IN_MONTH_def nth_tab)
  next
    case bn4: False
    then have b3: "b \<le> 3" using b0 by simp
    show ?thesis
    proof (cases "e = 4")
      case e4': True
      have z: "r4 = 0" using e3 e4 e4' by arith
      have c23: "c \<le> 23" using e2 e3 e4 e4' by arith
      from unf res e4' have ymd: "y = Y - 1" "m = 12" "d = 31" by simp_all
      have y: "y = 400 * a + 100 * b + 4 * c + 3 + 1"
        using ymd e4' by (simp add: Y_def)
      have dby: "days_before_year y = 146097 * a + 36524 * b + 1461 * c + 365 * 3"
        unfolding y using a0 b0 b3 c0 c23 by (intro dby_decomp) simp_all
      have leap: "is_leap y"
        unfolding y using a0 b0 b3 c0 c23 leap_decomp [of a b c 3] by simp
      have Neq: "N = 146097 * a + 36524 * b + 1461 * c + 365 * 3 + 365"
        using e1 e2 e3 e4 e4' z by simp
      have yb: "400 * a + 100 * b + 4 * c + 3 \<le> 9998"
        by (rule year_bound [where N = N and r = 365]) (use Neq N a0 b0 b3 c0 c23 in simp_all)
      show ?thesis
        using dby leap Neq nN ymd(2,3) yb a0 b0 c0 y
        by (simp add: ymd2ord_def days_before_month_def days_in_month_def DAYS_BEFORE_MONTH_def
            DAYS_IN_MONTH_def nth_tab)
    next
      case en4: False
      then have e3': "e \<le> 3" using e0 by simp
      from unf res bn4 en4 have yY: "y = Y"
        and md: "(m, d) = (if pre > r4
           then (m0 - 1, r4 - (pre - (DAYS_IN_MONTH ! nat (m0 - 2)
                                    + (if m0 - 1 = 2 \<and> leapyear then 1 else 0))) + 1)
           else (m0, r4 - pre + 1))"
        by (simp_all split: if_splits)
      have y: "y = 400 * a + 100 * b + 4 * c + e + 1"
        using yY by (simp add: Y_def)
      have dby: "days_before_year y = 146097 * a + 36524 * b + 1461 * c + 365 * e"
        unfolding y using a0 b0 b3 c0 e0 e3' by (intro dby_decomp) simp_all
      have leap: "is_leap y = leapyear"
        unfolding y leapyear_def using a0 b0 b3 c0 e0 e3' by (intro leap_decomp) simp_all
      have Neq: "N = 146097 * a + 36524 * b + 1461 * c + 365 * e + r4"
        using e1 e2 e3 e4 by simp
      have yb: "400 * a + 100 * b + 4 * c + e \<le> 9998"
        by (rule year_bound [where N = N and r = r4]) (use Neq N a0 b0 b3 c0 e0 e3' e4 in simp_all)
      note mp = month_part [OF e4(2,3) m0_def pre_def md]
      show ?thesis
        using mp dby leap Neq nN yb a0 b0 c0 e0 y
        by (simp add: ymd2ord_def days_before_month_def days_in_month_def)
    qed
  qed
qed

lemma add_minutes_correct:
  assumes "add_minutes s d = Inr e"
  shows "minutes_of e = minutes_of s + d \<and> valid_datetime e"
proof -
  define total where "total = minutes_of s + d"
  define days where "days = total div 1440"
  define r where "r = total mod 1440"
  obtain y m dd where o: "ord2ymd days = (y, m, dd)"
    by (cases "ord2ymd days") auto
  from assms have rng: "0 < days" "days \<le> 3652059"
    and e: "e = \<lparr>year = y, month = m, day = dd, hour = r div 60, minute = r mod 60\<rparr>"
    using o by (auto simp: add_minutes_def Let_def total_def days_def r_def split: if_splits)
  from rng have "1 \<le> days" by simp
  note c = ord2ymd_correct [OF this rng(2) o]
  have r: "0 \<le> r" "r < 1440" by (simp_all add: r_def)
  have hm: "r div 60 * 60 + r mod 60 = r" by simp
  have h: "0 \<le> r div 60" "r div 60 \<le> 23" using r by arith+
  have t: "total = days * 1440 + r" by (simp add: days_def r_def)
  have "minutes_of e = days * 1440 + (r div 60 * 60 + r mod 60)"
    using c by (simp add: e minutes_of_def toordinal_def)
  then have "minutes_of e = total" using t hm by simp
  moreover have "valid_datetime e"
    using c h by (simp add: e valid_datetime_def)
  ultimately show ?thesis by (simp add: total_def)
qed

lemma div_step:
  fixes y k :: int
  assumes "0 < k"
  shows "y div k = (y - 1) div k + (if y mod k = 0 then 1 else 0)"
proof -
  define q where "q = (y - 1) div k"
  define r where "r = (y - 1) mod k"
  have y: "y = k * q + (r + 1)" and r: "0 \<le> r" "r < k"
    using assms by (simp_all add: q_def r_def)
  show ?thesis
  proof (cases "r + 1 = k")
    case True
    then have yk: "y = k * (q + 1)" using y by (simp add: algebra_simps)
    have "y div k = q + 1" using assms by (simp add: yk)
    moreover have "y mod k = 0" by (simp add: yk)
    ultimately show ?thesis by (simp add: q_def)
  next
    case False
    then have lt: "r + 1 < k" using r by simp
    have "y div k = q"
      by (rule int_div_pos_eq [where r = "r + 1"]) (use y r lt in auto)
    moreover have "y mod k = r + 1"
      by (rule int_mod_pos_eq [where q = q]) (use y r lt in auto)
    ultimately show ?thesis using r by (simp add: q_def)
  qed
qed

lemma leap_sum:
  fixes q4 q100 q400 y :: int
  assumes "p400 \<Longrightarrow> p100" "p100 \<Longrightarrow> p4"
  shows "y * 365 + (q4 + (if p4 then 1 else 0)) - (q100 + (if p100 then 1 else 0))
           + (q400 + (if p400 then 1 else 0))
         = (y - 1) * 365 + q4 - q100 + q400 + 365 + (if p4 \<and> (\<not> p100 \<or> p400) then 1 else 0)"
  using assms by (cases p4; cases p100; cases p400; simp add: algebra_simps)

lemma days_before_year_step:
  "days_before_year (y + 1) = days_before_year y + 365 + (if is_leap y then 1 else 0)"
proof -
  have "y mod 100 = y mod 400 mod 100" by (simp add: mod_mod_cancel)
  then have a: "y mod 400 = 0 \<Longrightarrow> y mod 100 = 0" by simp
  have "y mod 4 = y mod 100 mod 4" by (simp add: mod_mod_cancel)
  then have b: "y mod 100 = 0 \<Longrightarrow> y mod 4 = 0" by simp
  have d4: "y div 4 = (y - 1) div 4 + (if y mod 4 = 0 then 1 else 0)"
    by (rule div_step) simp
  have d100: "y div 100 = (y - 1) div 100 + (if y mod 100 = 0 then 1 else 0)"
    by (rule div_step) simp
  have d400: "y div 400 = (y - 1) div 400 + (if y mod 400 = 0 then 1 else 0)"
    by (rule div_step) simp
  have "days_before_year (y + 1) = y * 365 + y div 4 - y div 100 + y div 400"
    by (simp add: days_before_year_def)
  also have "\<dots> = y * 365 + ((y - 1) div 4 + (if y mod 4 = 0 then 1 else 0))
       - ((y - 1) div 100 + (if y mod 100 = 0 then 1 else 0))
       + ((y - 1) div 400 + (if y mod 400 = 0 then 1 else 0))"
    using d4 d100 d400 by presburger
  also have "\<dots> = (y - 1) * 365 + (y - 1) div 4 - (y - 1) div 100 + (y - 1) div 400 + 365
       + (if y mod 4 = 0 \<and> (\<not> y mod 100 = 0 \<or> y mod 400 = 0) then 1 else 0)"
    by (rule leap_sum) (fact a, fact b)
  finally show ?thesis
    unfolding days_before_year_def is_leap_def .
qed

lemma days_before_year_mono:
  assumes "y \<le> y'"
  shows "days_before_year y \<le> days_before_year y'"
  using assms
proof (induction y' rule: int_ge_induct)
  case base
  show ?case by simp
next
  case (step i)
  then show ?case by (simp add: days_before_year_step)
qed

lemma yday_bounds:
  assumes "1 \<le> m" "m \<le> 12" "1 \<le> d" "d \<le> days_in_month y m"
  shows "days_before_month y m + d \<le> 365 + (if is_leap y then 1 else 0)"
  using mcases [OF assms(1,2)] assms(3,4)
  by (elim disjE; cases "is_leap y";
      simp add: days_before_month_def days_in_month_def DAYS_BEFORE_MONTH_def DAYS_IN_MONTH_def nth_tab)

lemma days_before_month_step:
  assumes "1 \<le> m" "m \<le> 11"
  shows "days_before_month y (m + 1) = days_before_month y m + days_in_month y m"
proof -
  have "m \<le> 12" using assms by simp
  from mcases [OF assms(1) this] assms(2) show ?thesis
    by (elim disjE; cases "is_leap y";
        simp add: days_before_month_def days_in_month_def DAYS_BEFORE_MONTH_def DAYS_IN_MONTH_def nth_tab)
qed

lemma days_in_month_pos:
  assumes "1 \<le> m" "m \<le> 12"
  shows "0 \<le> days_in_month y m"
  using mcases [OF assms]
  by (elim disjE; simp add: days_in_month_def DAYS_IN_MONTH_def nth_tab)

lemma days_before_month_mono:
  assumes "1 \<le> m" "m \<le> m'" "m' \<le> 12"
  shows "days_before_month y m \<le> days_before_month y m'"
  using assms(2,1,3)
proof (induction m' rule: int_ge_induct)
  case base
  show ?case by simp
next
  case (step i)
  then have "days_before_month y (i + 1) = days_before_month y i + days_in_month y i"
    by (intro days_before_month_step) auto
  moreover have "0 \<le> days_in_month y i"
    using step by (intro days_in_month_pos) auto
  ultimately show ?case using step by simp
qed

lemma ymd2ord_less:
  assumes a: "1 \<le> m" "m \<le> 12" "1 \<le> d" "d \<le> days_in_month y m"
    and b: "1 \<le> m'" "m' \<le> 12" "1 \<le> d'" "d' \<le> days_in_month y' m'"
    and lt: "y < y' \<or> (y = y' \<and> (m < m' \<or> (m = m' \<and> d < d')))"
  shows "ymd2ord y m d < ymd2ord y' m' d'"
proof -
  consider "y < y'" | "y = y'" "m < m'" | "y = y'" "m = m'" "d < d'"
    using lt by blast
  then show ?thesis
  proof cases
    case 1
    have "ymd2ord y m d \<le> days_before_year (y + 1)"
      using yday_bounds [OF a] by (simp add: ymd2ord_def days_before_year_step)
    also have "\<dots> \<le> days_before_year y'"
      using 1 by (intro days_before_year_mono) simp
    also have "\<dots> < ymd2ord y' m' d'"
    proof -
      have "0 \<le> days_before_month y' m'"
        using days_before_month_mono [of 1 m' y'] b
        by (simp add: days_before_month_def DAYS_BEFORE_MONTH_def)
      then show ?thesis using b by (simp add: ymd2ord_def)
    qed
    finally show ?thesis .
  next
    case 2
    have "days_before_month y m + d \<le> days_before_month y (m + 1)"
      using a 2 b by (subst days_before_month_step) auto
    also have "\<dots> \<le> days_before_month y m'"
      using a 2 b by (intro days_before_month_mono) auto
    finally show ?thesis using 2 b by (simp add: ymd2ord_def)
  next
    case 3
    then show ?thesis by (simp add: ymd2ord_def)
  qed
qed

lemma dt_less_minutes:
  assumes "valid_datetime a" "valid_datetime b" "dt_less a b"
  shows "minutes_of a < minutes_of b"
proof (cases "year a < year b \<or> (year a = year b \<and> (month a < month b
          \<or> (month a = month b \<and> day a < day b)))")
  case True
  have "ymd2ord (year a) (month a) (day a) < ymd2ord (year b) (month b) (day b)"
    by (rule ymd2ord_less) (use assms True in \<open>auto simp: valid_datetime_def\<close>)
  then show ?thesis
    using assms(1,2) by (simp add: minutes_of_def toordinal_def valid_datetime_def)
next
  case False
  with assms(3) have "year a = year b" "month a = month b" "day a = day b"
    and "hour a < hour b \<or> (hour a = hour b \<and> minute a < minute b)"
    by (auto simp: dt_less_def)
  then show ?thesis
    using assms(1,2) by (auto simp: minutes_of_def toordinal_def valid_datetime_def)
qed

lemma dt_less_total:
  "dt_less a b \<or> dt_less b a \<or> (year a = year b \<and> month a = month b \<and> day a = day b
        \<and> hour a = hour b \<and> minute a = minute b)"
proof (cases "year a" "year b" rule: linorder_cases)
  case equal
  note y = this
  show ?thesis
  proof (cases "month a" "month b" rule: linorder_cases)
    case equal
    note m = this
    show ?thesis
    proof (cases "day a" "day b" rule: linorder_cases)
      case equal
      note d = this
      show ?thesis
      proof (cases "hour a" "hour b" rule: linorder_cases)
        case equal
        note h = this
        show ?thesis
          by (cases "minute a" "minute b" rule: linorder_cases) (simp_all add: dt_less_def y m d h)
      qed (simp_all add: dt_less_def y m d)
    qed (simp_all add: dt_less_def y m)
  qed (simp_all add: dt_less_def y)
qed (simp_all add: dt_less_def)

lemma dt_less_iff:
  assumes "valid_datetime a" "valid_datetime b"
  shows "dt_less a b = (minutes_of a < minutes_of b)"
proof
  assume "dt_less a b"
  then show "minutes_of a < minutes_of b" by (rule dt_less_minutes [OF assms])
next
  assume lt: "minutes_of a < minutes_of b"
  show "dt_less a b"
  proof (rule ccontr)
    assume n: "\<not> dt_less a b"
    with dt_less_total [of a b] consider "dt_less b a"
      | "year a = year b" "month a = month b" "day a = day b" "hour a = hour b" "minute a = minute b"
      by blast
    then show False
    proof cases
      case 1
      from dt_less_minutes [OF assms(2,1) 1] lt show False by simp
    next
      case 2
      then have "minutes_of a = minutes_of b" by (simp add: minutes_of_def toordinal_def)
      with lt show False by simp
    qed
  qed
qed

section \<open>Searching normalised text\<close>

text \<open>
  A matcher that looks at no character from the first whitespace on finds the same first
  match in a text and in its normalisation.
\<close>

lemma zeros_gap:
  assumes "\<forall>z\<in>set digit_zeros. z + 10 \<le> lo \<or> hi < z" and "lo \<le> c" and "c \<le> hi"
  shows "decimal c = None"
proof -
  have "\<not> (z \<le> c \<and> c < z + 10)" if "z \<in> set digit_zeros" for z
    using assms that by fastforce
  then show ?thesis
    by (auto simp: decimal_def find_None_iff)
qed

lemma space_not_digit:
  assumes "isspace c"
  shows "decimal c = None"
proof -
  have g1: "\<forall>z\<in>set digit_zeros. z + 10 \<le> 0 \<or> 32 < z" by (simp add: digit_zeros_def)
  have g2: "\<forall>z\<in>set digit_zeros. z + 10 \<le> 133 \<or> 160 < z" by (simp add: digit_zeros_def)
  have g3: "\<forall>z\<in>set digit_zeros. z + 10 \<le> 5760 \<or> 5760 < z" by (simp add: digit_zeros_def)
  have g4: "\<forall>z\<in>set digit_zeros. z + 10 \<le> 8192 \<or> 12288 < z" by (simp add: digit_zeros_def)
  from assms consider "c \<le> 32" | "133 \<le> c \<and> c \<le> 160" | "c = 5760" | "8192 \<le> c \<and> c \<le> 12288"
    unfolding isspace_def by linarith
  then show ?thesis
  proof cases
    case 1
    then show ?thesis by (intro zeros_gap [OF g1]) simp_all
  next
    case 2
    then show ?thesis by (intro zeros_gap [OF g2]) simp_all
  next
    case 3
    then show ?thesis by (intro zeros_gap [OF g3]) simp_all
  next
    case 4
    then show ?thesis by (intro zeros_gap [OF g4]) simp_all
  qed
qed

lemma digit_not_space: "isdigit c \<Longrightarrow> \<not> isspace c"
  using space_not_digit by (auto simp: isdigit_def)

lemma match_seq_length: "match_seq p s \<Longrightarrow> length p \<le> length s"
  by (induction p s rule: match_seq.induct) auto

lemma match_seq_blind:
  assumes "\<And>a c. a \<in> set p \<Longrightarrow> isspace c \<Longrightarrow> \<not> atom_ok a c"
    and "r = [] \<or> isspace (hd r)"
  shows "match_seq p (w @ r) = match_seq p w"
  using assms
proof (induction p w rule: match_seq.induct)
  case (1 s)
  show ?case by simp
next
  case (2 a p)
  show ?case
  proof (cases r)
    case Nil
    then show ?thesis by simp
  next
    case (Cons c cs)
    with 2 show ?thesis by auto
  qed
next
  case (3 a p c cs)
  then show ?case by simp
qed

lemma first_match_space:
  assumes blind: "\<forall>w r. (r = [] \<or> isspace (hd r)) \<longrightarrow> m (w @ r) = m w"
    and none: "m [] = None" and c: "isspace c"
  shows "first_match m (c # s) = first_match m s"
proof -
  have "m ([] @ (c # s)) = m []" using blind [rule_format, of "c # s" "[]"] c by simp
  then show ?thesis by (simp add: none)
qed

lemma first_match_spaces:
  assumes blind: "\<forall>w r. (r = [] \<or> isspace (hd r)) \<longrightarrow> m (w @ r) = m w"
    and none: "m [] = None" and s: "\<forall>x\<in>set s. isspace x"
  shows "first_match m s = None"
  using s
proof (induction s)
  case Nil
  show ?case by (simp add: none)
next
  case (Cons a s)
  then have "isspace a" by simp
  then have "first_match m (a # s) = first_match m s"
    by (rule first_match_space [OF blind none])
  with Cons show ?case by (simp del: first_match.simps)
qed

lemma first_match_dropWhile:
  assumes blind: "\<forall>w r. (r = [] \<or> isspace (hd r)) \<longrightarrow> m (w @ r) = m w"
    and none: "m [] = None"
  shows "first_match m (dropWhile isspace s) = first_match m s"
proof (induction s)
  case Nil
  show ?case by simp
next
  case (Cons a s)
  show ?case
  proof (cases "isspace a")
    case True
    then have "first_match m (a # s) = first_match m s"
      by (rule first_match_space [OF blind none])
    with True Cons show ?thesis by (simp del: first_match.simps)
  next
    case False
    then show ?thesis by simp
  qed
qed

lemma first_match_word:
  assumes blind: "\<forall>w r. (r = [] \<or> isspace (hd r)) \<longrightarrow> m (w @ r) = m w"
    and none: "m [] = None" and r: "r = [] \<or> isspace (hd r)"
  shows "first_match m (w @ r) = (case first_match m w of Some g \<Rightarrow> Some g | None \<Rightarrow> first_match m r)"
proof (induction w)
  case Nil
  show ?case by (simp add: none)
next
  case (Cons x w)
  have "m ((x # w) @ r) = m (x # w)" using blind [rule_format, of r "x # w"] r by simp
  then show ?case using Cons by (simp split: option.splits)
qed

lemma first_match_trailing:
  assumes blind: "\<forall>w r. (r = [] \<or> isspace (hd r)) \<longrightarrow> m (w @ r) = m w"
    and none: "m [] = None" and r: "\<forall>x\<in>set r. isspace x"
  shows "first_match m (w @ r) = first_match m w"
proof -
  have "r = [] \<or> isspace (hd r)" using r by (cases r) auto
  from first_match_word [OF blind none this, of w] first_match_spaces [OF blind none r]
  show ?thesis by (simp split: option.splits)
qed

lemma first_match_strip:
  assumes blind: "\<forall>w r. (r = [] \<or> isspace (hd r)) \<longrightarrow> m (w @ r) = m w"
    and none: "m [] = None"
  shows "first_match m (strip s) = first_match m s"
proof -
  define y where "y = dropWhile isspace s"
  have "rev y = takeWhile isspace (rev y) @ dropWhile isspace (rev y)" by simp
  then have "y = rev (dropWhile isspace (rev y)) @ rev (takeWhile isspace (rev y))"
    by (metis rev_append rev_rev_ident)
  then have y: "y = strip s @ rev (takeWhile isspace (rev y))"
    by (simp add: strip_def y_def)
  have "\<forall>x\<in>set (rev (takeWhile isspace (rev y))). isspace x"
    by (auto dest: set_takeWhileD)
  from first_match_trailing [OF blind none this, of "strip s"] y
  have "first_match m y = first_match m (strip s)" by simp
  then show ?thesis
    by (simp add: y_def first_match_dropWhile [OF blind none])
qed

lemma first_match_split_ws:
  assumes blind: "\<forall>w r. (r = [] \<or> isspace (hd r)) \<longrightarrow> m (w @ r) = m w"
    and none: "m [] = None"
  shows "first_match m (join [32] (split_ws s)) = first_match m s"
proof (induction s rule: split_ws.induct)
  case 1
  show ?case by simp
next
  case (2 c cs)
  show ?case
  proof (cases "isspace c")
    case True
    then have "first_match m (c # cs) = first_match m cs"
      by (rule first_match_space [OF blind none])
    with True 2 show ?thesis by (simp del: first_match.simps)
  next
    case False
    define w where "w = c # takeWhile (\<lambda>x. \<not> isspace x) cs"
    define r where "r = dropWhile (\<lambda>x. \<not> isspace x) cs"
    have s: "c # cs = w @ r" by (simp add: w_def r_def)
    have r: "r = [] \<or> isspace (hd r)"
      using hd_dropWhile [of "\<lambda>x. \<not> isspace x" cs] by (auto simp: r_def)
    have IH: "first_match m (join [32] (split_ws r)) = first_match m r"
      using 2(2) False by (simp add: r_def)
    have sp: "split_ws (c # cs) = w # split_ws r"
      using False by (simp add: w_def r_def)
    have sp32: "isspace 32" by (simp add: isspace_def)
    have "first_match m (join [32] (w # split_ws r))
        = (case first_match m w of Some g \<Rightarrow> Some g | None \<Rightarrow> first_match m r)"
    proof (cases "split_ws r")
      case Nil
      with IH have "first_match m r = None" by (simp add: none)
      with Nil show ?thesis by (simp split: option.splits)
    next
      case (Cons v vs)
      have "join [32] (w # split_ws r) = w @ (32 # join [32] (split_ws r))"
        by (simp add: Cons)
      moreover have "first_match m (w @ (32 # join [32] (split_ws r)))
          = (case first_match m w of Some g \<Rightarrow> Some g
             | None \<Rightarrow> first_match m (32 # join [32] (split_ws r)))"
        by (rule first_match_word [OF blind none]) (simp add: sp32)
      moreover have "first_match m (32 # join [32] (split_ws r)) = first_match m r"
        using first_match_space [OF blind none sp32, of "join [32] (split_ws r)"] IH by simp
      ultimately show ?thesis
        by (simp del: join.simps first_match.simps cong: option.case_cong)
    qed
    then have "first_match m (join [32] (split_ws (c # cs))) = first_match m (w @ r)"
      unfolding sp using first_match_word [OF blind none r, of w] by simp
    then show ?thesis by (simp only: s)
  qed
qed

lemma blind_replace_nbsp:
  assumes blind: "\<forall>w r. (r = [] \<or> isspace (hd r)) \<longrightarrow> m (w @ r) = m w"
  shows "m (replace_nbsp s) = m s"
proof -
  define w where "w = takeWhile (\<lambda>x. \<not> isspace x) s"
  define r where "r = dropWhile (\<lambda>x. \<not> isspace x) s"
  have s: "s = w @ r" by (simp add: w_def r_def)
  have r: "r = [] \<or> isspace (hd r)"
    using hd_dropWhile [of "\<lambda>x. \<not> isspace x" s] by (auto simp: r_def)
  have "\<forall>x\<in>set w. \<not> isspace x" by (auto simp: w_def dest: set_takeWhileD)
  moreover have "isspace 160" by (simp add: isspace_def)
  ultimately have w: "replace_nbsp w = w"
    by (auto simp: replace_nbsp_def intro!: map_idI)
  have r': "replace_nbsp r = [] \<or> isspace (hd (replace_nbsp r))"
    using r by (cases r) (auto simp: replace_nbsp_def isspace_def)
  have "m (replace_nbsp s) = m (w @ replace_nbsp r)"
    by (simp add: s replace_nbsp_def w [unfolded replace_nbsp_def])
  also have "\<dots> = m w" using blind [rule_format, of "replace_nbsp r" w] r' by simp
  also have "\<dots> = m (w @ r)" using blind [rule_format, of r w] r by simp
  finally show ?thesis by (simp add: s)
qed

lemma first_match_replace_nbsp:
  assumes blind: "\<forall>w r. (r = [] \<or> isspace (hd r)) \<longrightarrow> m (w @ r) = m w"
  shows "first_match m (replace_nbsp s) = first_match m s"
proof (induction s)
  case Nil
  show ?case by (simp add: replace_nbsp_def)
next
  case (Cons c cs)
  have "m (replace_nbsp (c # cs)) = m (c # cs)" by (rule blind_replace_nbsp [OF blind])
  then show ?case
    using Cons by (simp add: replace_nbsp_def cong: option.case_cong)
qed

lemma first_match_norm:
  assumes blind: "\<forall>w r. (r = [] \<or> isspace (hd r)) \<longrightarrow> m (w @ r) = m w"
    and none: "m [] = None"
  shows "first_match m (norm s) = first_match m s"
  by (simp add: norm_def first_match_strip [OF blind none] first_match_split_ws [OF blind none]
      first_match_replace_nbsp [OF blind])

lemma atom_rejects_space:
  assumes "a \<in> set [Digit, Lit 46, Lit 58]" and "isspace c"
  shows "\<not> atom_ok a c"
  using assms digit_not_space [of c] by (auto simp: isspace_def)

lemma date_at_blind:
  "\<forall>w r. (r = [] \<or> isspace (hd r)) \<longrightarrow> date_at (w @ r) = date_at w"
proof (intro allI impI)
  fix w r :: ustring
  assume r: "r = [] \<or> isspace (hd r)"
  have m: "match_seq DATE_RE (w @ r) = match_seq DATE_RE w"
    by (rule match_seq_blind [OF _ r]) (rule atom_rejects_space, auto simp: DATE_RE_def)
  show "date_at (w @ r) = date_at w"
  proof (cases "match_seq DATE_RE w")
    case True
    from match_seq_length [OF this] have "10 \<le> length w" by (simp add: DATE_RE_def)
    with True m show ?thesis by (simp add: date_at_def)
  next
    case False
    with m show ?thesis by (simp add: date_at_def)
  qed
qed

lemma time_at_blind:
  "\<forall>w r. (r = [] \<or> isspace (hd r)) \<longrightarrow> time_at (w @ r) = time_at w"
proof (intro allI impI)
  fix w r :: ustring
  assume r: "r = [] \<or> isspace (hd r)"
  have m2: "match_seq [Digit, Digit, Lit 58, Digit, Digit] (w @ r)
      = match_seq [Digit, Digit, Lit 58, Digit, Digit] w"
    by (rule match_seq_blind [OF _ r]) (rule atom_rejects_space, auto)
  have m1: "match_seq [Digit, Lit 58, Digit, Digit] (w @ r)
      = match_seq [Digit, Lit 58, Digit, Digit] w"
    by (rule match_seq_blind [OF _ r]) (rule atom_rejects_space, auto)
  have l2: "match_seq [Digit, Digit, Lit 58, Digit, Digit] w \<Longrightarrow> 5 \<le> length w"
    using match_seq_length [of "[Digit, Digit, Lit 58, Digit, Digit]" w] by simp
  have l1: "match_seq [Digit, Lit 58, Digit, Digit] w \<Longrightarrow> 4 \<le> length w"
    using match_seq_length [of "[Digit, Lit 58, Digit, Digit]" w] by simp
  show "time_at (w @ r) = time_at w"
    unfolding time_at_def m1 m2 using l1 l2 by auto
qed

lemma DATE_RE_search_norm: "DATE_RE_search (norm s) = DATE_RE_search s"
  unfolding DATE_RE_search_def
  by (rule first_match_norm [OF date_at_blind]) (simp add: date_at_def DATE_RE_def)

lemma TIME_RE_search_norm: "TIME_RE_search (norm s) = TIME_RE_search s"
  unfolding TIME_RE_search_def
  by (rule first_match_norm [OF time_at_blind]) (simp add: time_at_def)

lemma first_match_at:
  assumes "k \<le> length s" and "m (drop k s) = Some g" and "\<forall>j<k. m (drop j s) = None"
  shows "first_match m s = Some g"
  using assms
proof (induction k arbitrary: s)
  case 0
  then show ?case by (cases s) simp_all
next
  case (Suc k)
  then obtain c cs where s: "s = c # cs" by (cases s) auto
  from Suc.prems(3) have "m (drop 0 s) = None" by blast
  then have n: "m (c # cs) = None" by (simp add: s)
  have "\<forall>j<k. m (drop j cs) = None"
  proof (intro allI impI)
    fix j assume "j < k"
    then have "m (drop (Suc j) s) = None" using Suc.prems(3) by simp
    then show "m (drop j cs) = None" by (simp add: s)
  qed
  with Suc.IH [of cs] Suc.prems(1,2) have "first_match m cs = Some g" by (simp add: s)
  with n show ?case by (simp add: s)
qed

lemma first_match_none:
  assumes "\<forall>j\<le>length s. m (drop j s) = None"
  shows "first_match m s = None"
  using assms
proof (induction s)
  case Nil
  then show ?case by simp
next
  case (Cons c cs)
  from Cons.prems have "m (drop 0 (c # cs)) = None" by blast
  then have n: "m (c # cs) = None" by simp
  have "\<forall>j\<le>length cs. m (drop j cs) = None"
  proof (intro allI impI)
    fix j assume "j \<le> length cs"
    then have "m (drop (Suc j) (c # cs)) = None" using Cons.prems [rule_format, of "Suc j"] by simp
    then show "m (drop j cs) = None" by simp
  qed
  with Cons.IH n show ?case by simp
qed

lemma list10:
  assumes "length xs = 10"
  obtains c0 c1 c2 c3 c4 c5 c6 c7 c8 c9 where "xs = [c0, c1, c2, c3, c4, c5, c6, c7, c8, c9]"
  using assms by (auto simp: eval_nat_numeral length_Suc_conv)

lemma match_seq_DATE_RE:
  "match_seq DATE_RE (drop k s) = date_substring_at s k"
proof (cases "k + 10 \<le> length s")
  case False
  then have "length (drop k s) < length DATE_RE" by (simp add: DATE_RE_def)
  then have "\<not> match_seq DATE_RE (drop k s)" using match_seq_length [of DATE_RE "drop k s"] by auto
  with False show ?thesis by (simp add: date_substring_at_def)
next
  case True
  then obtain a where a: "drop k s = take 10 (drop k s) @ a" by (metis append_take_drop_id)
  have len: "length (take 10 (drop k s)) = 10" using True by simp
  then obtain c0 c1 c2 c3 c4 c5 c6 c7 c8 c9 where t: "take 10 (drop k s) = [c0, c1, c2, c3, c4, c5, c6, c7, c8, c9]"
    by (rule list10)
  have nth: "s ! (k + i) = take 10 (drop k s) ! i" if "i < 10" for i
    using that True by simp
  have "match_seq DATE_RE (drop k s) = match_seq DATE_RE ([c0, c1, c2, c3, c4, c5, c6, c7, c8, c9] @ a)"
    using a t by simp
  also have "\<dots> = (isdigit c0 \<and> isdigit c1 \<and> c2 = 46 \<and> isdigit c3 \<and> isdigit c4 \<and> c5 = 46
        \<and> isdigit c6 \<and> isdigit c7 \<and> isdigit c8 \<and> isdigit c9)"
    by (simp add: DATE_RE_def)
  also have "\<dots> = date_substring_at s k"
    using True nth [of 0] nth [of 1] nth [of 2] nth [of 3] nth [of 4] nth [of 5] nth [of 6]
      nth [of 7] nth [of 8] nth [of 9]
    by (simp add: date_substring_at_def t)
  finally show ?thesis .
qed

lemma DATE_RE_search_first:
  assumes "date_substring_at s k" and "\<forall>j<k. \<not> date_substring_at s j"
  shows "DATE_RE_search s
     = Some (take 2 (drop k s), take 2 (drop (k + 3) s), take 4 (drop (k + 6) s))"
  unfolding DATE_RE_search_def
proof (rule first_match_at [where k = k])
  show "k \<le> length s" using assms(1) by (simp add: date_substring_at_def)
  show "date_at (drop k s)
      = Some (take 2 (drop k s), take 2 (drop (k + 3) s), take 4 (drop (k + 6) s))"
    using assms(1) by (simp add: date_at_def match_seq_DATE_RE add.commute)
  show "\<forall>j<k. date_at (drop j s) = None"
    using assms(2) by (simp add: date_at_def match_seq_DATE_RE)
qed

lemma DATE_RE_search_absent:
  assumes "\<forall>k. \<not> date_substring_at s k"
  shows "DATE_RE_search s = None"
  unfolding DATE_RE_search_def
  by (rule first_match_none) (use assms in \<open>simp add: date_at_def match_seq_DATE_RE\<close>)

lemma time_fields_norm: "time_fields (norm x) = time_fields x"
  by (simp add: time_fields_def TIME_RE_search_norm)

lemma ds1: "date_substring_at (ustr ''Fr 03.10.2025'') 3"
  by (simp add: date_substring_at_def ustr_def isdigit_ascii)

lemma ds2: "\<forall>j<3. \<not> date_substring_at (ustr ''Fr 03.10.2025'') j"
proof (intro allI impI)
  fix j :: nat
  assume "j < 3"
  then have "j = 0 \<or> j = 1 \<or> j = 2" by arith
  moreover have "\<not> date_substring_at (ustr ''Fr 03.10.2025'') 0"
    by (simp add: date_substring_at_def ustr_def isdigit_ascii)
  moreover have "\<not> date_substring_at (ustr ''Fr 03.10.2025'') 1"
    by (simp add: date_substring_at_def ustr_def isdigit_ascii)
  moreover have "\<not> date_substring_at (ustr ''Fr 03.10.2025'') 2"
    by (simp add: date_substring_at_def ustr_def isdigit_ascii)
  ultimately show "\<not> date_substring_at (ustr ''Fr 03.10.2025'') j" by blast
qed

lemma ds3: "\<forall>k. \<not> date_substring_at (ustr ''Datum'') k"
  by (simp add: date_substring_at_def ustr_def)

section \<open>The row parser\<close>

text \<open>
  C1. The row Fr, 03.10.2025, 19:30 Uhr, a link with the text TU, 12, Team A, Team B,
  3:1, parsed with a duration of 90 minutes and without enrichment, gives the record with
  Subject "Team A vs. Team B", Start Date "10/03/2025", Start Time "19:30", End Date
  "10/03/2025", End Time "21:00", Description "Spiel Nr.: 12 | Ergebnis: 3:1" and
  Location "TU", whatever the page URL and the network are.
\<close>

theorem scenario_row:
  "parse_row w url 90 False example_row =
     Inr (Some \<lparr>Subject = ustr ''Team A vs. Team B'',
                Start_Date = ustr ''10/03/2025'',
                Start_Time = ustr ''19:30'',
                End_Date = ustr ''10/03/2025'',
                End_Time = ustr ''21:00'',
                All_Day_Event = ustr ''False'',
                Description = ustr ''Spiel Nr.: 12 | Ergebnis: 3:1'',
                Location = ustr ''TU'',
                Private = ustr ''False''\<rparr>)"
  by (rule example_row_record)

theorem scenario_row_witness:
  "Location (the (projr (parse_row offline page_url 90 False example_row))) = [84, 85]
   \<and> End_Time (the (projr (parse_row offline page_url 90 False example_row))) = [50, 49, 58, 48, 48]"
  using scenario_row [of offline page_url] by (simp add: ustr_def)

text \<open>
  C2. A row with fewer than seven cells gives no record, a row whose date cell (index 1)
  holds no day.month.year pattern gives no record whatever the other cells hold, and so a
  record is emitted only for a row of at least seven cells whose date cell holds the
  pattern.
\<close>

theorem row_gate:
  "(length tds < 7 \<longrightarrow> parse_row w url d e tds = Inr None)
   \<and> (DATE_RE_search (cell_text (tds ! 1)) = None \<longrightarrow> parse_row w url d e tds = Inr None)
   \<and> (parse_row w url d e tds = Inr (Some r)
        \<longrightarrow> 7 \<le> length tds \<and> DATE_RE_search (cell_text (tds ! 1)) \<noteq> None)"
  by (auto simp: parse_row_def row_times_def Let_def split: if_splits)

theorem row_gate_witness:
  "7 \<le> length example_row \<and> DATE_RE_search (cell_text (example_row ! 1)) \<noteq> None
   \<and> parse_row offline page_url 90 False (take 6 example_row) = Inr None
   \<and> parse_row offline page_url 90 False (example_row[1 := td ''Datum'']) = Inr None"
proof -
  have short: "length (take 6 example_row) < 7"
    by (simp add: example_row_def)
  have nodate: "DATE_RE_search (cell_text (example_row[1 := td ''Datum''] ! 1)) = None"
    by (simp add: example_row_def eval_text eval_re)
  have emitted: "parse_row offline page_url 90 False example_row =
      Inr (Some \<lparr>Subject = ustr ''Team A vs. Team B'', Start_Date = ustr ''10/03/2025'',
                 Start_Time = ustr ''19:30'', End_Date = ustr ''10/03/2025'',
                 End_Time = ustr ''21:00'', All_Day_Event = ustr ''False'',
                 Description = ustr ''Spiel Nr.: 12 | Ergebnis: 3:1'',
                 Location = ustr ''TU'', Private = ustr ''False''\<rparr>)"
    by (rule example_row_record)
  from row_gate [of "take 6 example_row" offline page_url 90 False] short
  have 1: "parse_row offline page_url 90 False (take 6 example_row) = Inr None"
    by blast
  from row_gate [of "example_row[1 := td ''Datum'']" offline page_url 90 False] nodate
  have 2: "parse_row offline page_url 90 False (example_row[1 := td ''Datum'']) = Inr None"
    by blast
  from row_gate [of example_row offline page_url 90 False] emitted
  have 3: "7 \<le> length example_row \<and> DATE_RE_search (cell_text (example_row ! 1)) \<noteq> None"
    by blast
  from 1 2 3 show ?thesis by blast
qed

text \<open>
  C10. Two rows of at least seven cells each that agree in the cells at the indices 1 to
  7 give the same result under the same settings: the weekday cell and the cells from
  index 8 on have no influence.
\<close>

theorem only_cells_1_to_7:
  assumes "7 \<le> length a" and "7 \<le> length b" and "take 7 (drop 1 a) = take 7 (drop 1 b)"
  shows "parse_row w url d e a = parse_row w url d e b"
proof -
  have len: "min 7 (length a - 1) = min 7 (length b - 1)"
    using arg_cong [OF assms(3), of length] by simp
  have nth: "a ! Suc i = b ! Suc i" if "i < min 7 (length a - 1)" for i
  proof -
    have "take 7 (drop 1 a) ! i = a ! Suc i" using that assms(1) by (simp add: nth_drop)
    moreover have "take 7 (drop 1 b) ! i = b ! Suc i" using that len assms(2) by (simp add: nth_drop)
    ultimately show ?thesis using assms(3) by simp
  qed
  have c: "a ! Suc 0 = b ! Suc 0" "a ! 2 = b ! 2" "a ! 3 = b ! 3" "a ! 4 = b ! 4" "a ! 5 = b ! 5" "a ! 6 = b ! 6"
    using nth [of 0] nth [of 1] nth [of 2] nth [of 3] nth [of 4] nth [of 5] assms(1)
    by (simp_all add: eval_nat_numeral)
  have l8: "(8 \<le> length a) = (8 \<le> length b)"
    using len assms(1,2) by (auto simp: min_def split: if_splits)
  have c7: "8 \<le> length a \<Longrightarrow> a ! 7 = b ! 7"
    using nth [of 6] by (simp add: eval_nat_numeral)
  have rt: "row_times a d = row_times b d"
    by (simp add: row_times_def c)
  show ?thesis
  proof (cases "8 \<le> length a")
    case True
    with l8 c7 assms(1,2) show ?thesis by (simp add: parse_row_def rt c)
  next
    case False
    with l8 assms(1,2) show ?thesis by (simp add: parse_row_def rt c)
  qed
qed

theorem only_cells_1_to_7_witness:
  "7 \<le> length example_row \<and> 7 \<le> length example_row_padded
   \<and> example_row ! 0 \<noteq> example_row_padded ! 0
   \<and> length example_row \<noteq> length example_row_padded
   \<and> parse_row offline page_url 90 True example_row
       = parse_row offline page_url 90 True example_row_padded"
proof -
  have 1: "7 \<le> length example_row" by (simp add: example_row_def)
  have 2: "7 \<le> length example_row_padded" by (simp add: example_row_padded_def)
  have 3: "take 7 (drop 1 example_row) = take 7 (drop 1 example_row_padded)"
    by (simp add: example_row_def example_row_padded_def)
  have 4: "example_row ! 0 \<noteq> example_row_padded ! 0"
    by (simp add: example_row_def example_row_padded_def td_def ustr_def)
  have 5: "length example_row \<noteq> length example_row_padded"
    by (simp add: example_row_def example_row_padded_def)
  from only_cells_1_to_7 [OF 1 2 3, of offline page_url 90 True] 1 2 4 5
  show ?thesis by blast
qed

section \<open>Start and end of a match\<close>

lemma parse_datetime_valid:
  assumes "parse_datetime date_text time_text = Inr (Some dt)"
  shows "valid_datetime dt"
  using assms
  by (auto simp: parse_datetime_def make_datetime_def Let_def
      split: option.splits prod.splits if_splits)

lemma row_times_props:
  assumes "row_times tds d = Inr (Some (s, e))"
  shows "valid_datetime s \<and> valid_datetime e \<and> minutes_of e = minutes_of s + d"
proof -
  from assms obtain date_text time_text
    where p: "parse_datetime date_text time_text = Inr (Some s)" and a: "add_minutes s d = Inr e"
    by (auto simp: row_times_def Let_def split: if_splits sum.splits option.splits)
  from parse_datetime_valid [OF p] add_minutes_correct [OF a] show ?thesis by simp
qed

lemma parse_row_times:
  assumes "parse_row w url d en tds = Inr (Some r)"
  shows "\<exists>s e. row_times tds d = Inr (Some (s, e))
           \<and> Start_Date r = fmt_date s \<and> Start_Time r = fmt_time s
           \<and> End_Date r = fmt_date e \<and> End_Time r = fmt_time e"
  using assms
  by (auto simp: parse_row_def Let_def split: if_splits sum.splits option.splits prod.splits)

lemma example_row_zero:
  "row_times example_row 0 = Inr (Some (kickoff, kickoff))"
  by (simp add: row_times_def example_row_def kickoff_def eval_text eval_re eval_dt)

lemma example_site_rows:
  "main_rows example_site zero_duration_args =
     Inr [\<lparr>Subject = ustr ''Team A vs. Team B'',
           Start_Date = ustr ''10/03/2025'',
           Start_Time = ustr ''19:30'',
           End_Date = ustr ''10/03/2025'',
           End_Time = ustr ''19:30'',
           All_Day_Event = ustr ''False'',
           Description = ustr ''Spiel Nr.: 12 | Ergebnis: 3:1'',
           Location = ustr ''TU'',
           Private = ustr ''False''\<rparr>]"
proof -
  have tables: "find_schedule_tables example_page
      = [Elem (ustr ''table'') [] [Elem (ustr ''tr'') [] example_row]]"
    by (simp add: find_schedule_tables_def example_page_def example_row_def hall_link_cell_def
        td_def get_text_def strings_def container_of_def string_containers_def ustr_def)
  have rows: "table_rows (Elem (ustr ''table'') [] [Elem (ustr ''tr'') [] example_row])
      = [example_row]"
    by (simp add: table_rows_def find_all_def example_row_def hall_link_cell_def td_def ustr_def)
  have row: "parse_row example_site page_url 0 False example_row =
     Inr (Some \<lparr>Subject = ustr ''Team A vs. Team B'',
           Start_Date = ustr ''10/03/2025'',
           Start_Time = ustr ''19:30'',
           End_Date = ustr ''10/03/2025'',
           End_Time = ustr ''19:30'',
           All_Day_Event = ustr ''False'',
           Description = ustr ''Spiel Nr.: 12 | Ergebnis: 3:1'',
           Location = ustr ''TU'',
           Private = ustr ''False''\<rparr>)"
    unfolding parse_row_def example_row_zero
    by (simp add: example_row_def hall_link_cell_def description_of_def kickoff_def eval_text
        eval_re fmt_date_def fmt_time_def two_digits_def year_digits_def)
  show ?thesis
    by (simp add: main_rows_def zero_duration_args_def parse_team_portrait_def fetch_def
        example_site_def tables rows row [unfolded example_site_def])
qed

text \<open>
  C5. For every record the row parser emits, under every duration (zero and negative
  ones too), the start and end columns are the formatted start and end timestamps of
  the row, and the end lies exactly the configured number of minutes after the start.
\<close>

theorem end_is_start_plus_duration:
  assumes "parse_row w url d en tds = Inr (Some r)"
  shows "\<exists>s e. row_times tds d = Inr (Some (s, e))
           \<and> Start_Date r = fmt_date s \<and> Start_Time r = fmt_time s
           \<and> End_Date r = fmt_date e \<and> End_Time r = fmt_time e
           \<and> valid_datetime s \<and> valid_datetime e
           \<and> minutes_of e = minutes_of s + d"
proof -
  from parse_row_times [OF assms] obtain s e
    where t: "row_times tds d = Inr (Some (s, e))"
      and f: "Start_Date r = fmt_date s" "Start_Time r = fmt_time s"
             "End_Date r = fmt_date e" "End_Time r = fmt_time e"
    by blast
  from row_times_props [OF t] t f show ?thesis by blast
qed

theorem end_is_start_plus_duration_witness:
  "\<exists>s e. row_times example_row 90 = Inr (Some (s, e)) \<and> minutes_of e = minutes_of s + 90"
  using end_is_start_plus_duration [OF example_row_record [of offline page_url]] by blast

text \<open>
  C6 as stated fails: the command line takes any integer as duration, and with
  \<open>--duration 0\<close> the example page gives a record whose end is its start.
\<close>

theorem zero_duration_counterexample:
  "main_rows example_site zero_duration_args =
     Inr [\<lparr>Subject = ustr ''Team A vs. Team B'',
           Start_Date = ustr ''10/03/2025'',
           Start_Time = ustr ''19:30'',
           End_Date = ustr ''10/03/2025'',
           End_Time = ustr ''19:30'',
           All_Day_Event = ustr ''False'',
           Description = ustr ''Spiel Nr.: 12 | Ergebnis: 3:1'',
           Location = ustr ''TU'',
           Private = ustr ''False''\<rparr>]
   \<and> row_times example_row (arg_duration zero_duration_args) = Inr (Some (kickoff, kickoff))
   \<and> \<not> dt_less kickoff kickoff"
  using example_site_rows example_row_zero
  by (simp add: zero_duration_args_def dt_less_def)

text \<open>
  C6, amended. For every record the row parser emits, the end timestamp is later than
  the start timestamp, in Python's order on timestamps, exactly when the configured
  duration is positive.
\<close>

theorem end_after_start_iff_positive:
  assumes "parse_row w url d en tds = Inr (Some r)"
  shows "\<exists>s e. row_times tds d = Inr (Some (s, e))
           \<and> Start_Date r = fmt_date s \<and> Start_Time r = fmt_time s
           \<and> End_Date r = fmt_date e \<and> End_Time r = fmt_time e
           \<and> dt_less s e = (0 < d)"
proof -
  from parse_row_times [OF assms] obtain s e
    where t: "row_times tds d = Inr (Some (s, e))"
      and f: "Start_Date r = fmt_date s" "Start_Time r = fmt_time s"
             "End_Date r = fmt_date e" "End_Time r = fmt_time e"
    by blast
  from row_times_props [OF t]
  have v: "valid_datetime s" "valid_datetime e" and m: "minutes_of e = minutes_of s + d"
    by simp_all
  have "dt_less s e = (0 < d)"
    using dt_less_iff [OF v] m by simp
  with t f show ?thesis by blast
qed

theorem end_after_start_iff_positive_witness:
  "\<exists>s e. row_times example_row 90 = Inr (Some (s, e)) \<and> dt_less s e"
  using end_after_start_iff_positive [OF example_row_record [of offline page_url]] by auto

section \<open>The datetime resolver\<close>

text \<open>
  What \<open>parse_datetime\<close> does where \<open>datetime\<close> accepts the fields: a date text without
  a DD.MM.YYYY substring gives \<open>None\<close>, and a date text whose first such substring and
  whose time text are in the range of a timestamp gives the timestamp of that day, month
  and year.
\<close>

lemma parse_datetime_in_range:
  "((\<forall>k. \<not> date_substring_at s k) \<longrightarrow> parse_datetime s t = Inr None)
   \<and> (date_substring_at s k \<and> (\<forall>j<k. \<not> date_substring_at s j)
       \<and> py_int (take 2 (drop k s)) = Some dd
       \<and> py_int (take 2 (drop (k + 3) s)) = Some mo
       \<and> py_int (take 4 (drop (k + 6) s)) = Some yy
       \<and> time_fields (case t of None \<Rightarrow> [] | Some x \<Rightarrow> x) = Some (hh, mm)
       \<and> valid_datetime \<lparr>year = yy, month = mo, day = dd, hour = hh, minute = mm\<rparr>
      \<longrightarrow> parse_datetime s t
            = Inr (Some \<lparr>year = yy, month = mo, day = dd, hour = hh, minute = mm\<rparr>))"
proof (intro conjI impI)
  assume "\<forall>k. \<not> date_substring_at s k"
  then have "DATE_RE_search (norm s) = None"
    by (simp add: DATE_RE_search_norm DATE_RE_search_absent)
  then show "parse_datetime s t = Inr None"
    by (simp add: parse_datetime_def)
next
  assume a: "date_substring_at s k \<and> (\<forall>j<k. \<not> date_substring_at s j)
       \<and> py_int (take 2 (drop k s)) = Some dd
       \<and> py_int (take 2 (drop (k + 3) s)) = Some mo
       \<and> py_int (take 4 (drop (k + 6) s)) = Some yy
       \<and> time_fields (case t of None \<Rightarrow> [] | Some x \<Rightarrow> x) = Some (hh, mm)
       \<and> valid_datetime \<lparr>year = yy, month = mo, day = dd, hour = hh, minute = mm\<rparr>"
  then have "DATE_RE_search (norm s)
      = Some (take 2 (drop k s), take 2 (drop (k + 3) s), take 4 (drop (k + 6) s))"
    by (simp add: DATE_RE_search_norm DATE_RE_search_first)
  with a show "parse_datetime s t
      = Inr (Some \<lparr>year = yy, month = mo, day = dd, hour = hh, minute = mm\<rparr>)"
    by (simp add: parse_datetime_def time_fields_norm make_datetime_def)
qed

lemma parse_datetime_in_range_example:
  "parse_datetime (ustr ''Fr 03.10.2025'') (Some (ustr ''19:30 Uhr'')) = Inr (Some kickoff)
   \<and> parse_datetime (ustr ''Datum'') None = Inr None"
proof -
  have 1: "py_int (take 2 (drop 3 (ustr ''Fr 03.10.2025''))) = Some 3"
    "py_int (take 2 (drop (3 + 3) (ustr ''Fr 03.10.2025''))) = Some 10"
    "py_int (take 4 (drop (3 + 6) (ustr ''Fr 03.10.2025''))) = Some 2025"
    by (simp_all add: ustr_def py_int_def decimal_ascii)
  have 2: "time_fields (case Some (ustr ''19:30 Uhr'') of None \<Rightarrow> [] | Some x \<Rightarrow> x) = Some (19, 30)"
    by (simp add: ustr_def eval_re)
  have 3: "valid_datetime \<lparr>year = 2025, month = 10, day = 3, hour = 19, minute = 30\<rparr>"
    by (simp add: valid_datetime_def days_in_month_def DAYS_IN_MONTH_def is_leap_def)
  from parse_datetime_in_range [of "ustr ''Fr 03.10.2025''" "Some (ustr ''19:30 Uhr'')" 3 3 10 2025 19 30]
    ds1 ds2 1 2 3
  have a: "parse_datetime (ustr ''Fr 03.10.2025'') (Some (ustr ''19:30 Uhr'')) = Inr (Some kickoff)"
    by (simp add: kickoff_def)
  from parse_datetime_in_range [of "ustr ''Datum''" None] ds3
  have b: "parse_datetime (ustr ''Datum'') None = Inr None"
    by blast
  from a b show ?thesis by simp
qed

lemma bad_time_row:
  "parse_row w url 90 False (example_row[2 := td ''25:00'']) = Inl ValueError"
proof -
  have t: "row_times (example_row[2 := td ''25:00'']) 90 = Inl ValueError"
    by (simp add: row_times_def example_row_def eval_text eval_re parse_datetime_def
        make_datetime_def valid_datetime_def days_in_month_def DAYS_IN_MONTH_def is_leap_def)
  show ?thesis
    unfolding parse_row_def t by (simp add: example_row_def)
qed

text \<open>
  C3. The claim is that a date text with a valid DD.MM.YYYY substring gives a timestamp
  of that day, month and year under any time text, and that every other date text gives
  \<open>None\<close> and no other failure. The code does not do so: the matched digits go to
  \<open>datetime\<close> unchecked and its \<open>ValueError\<close> is not caught. The date text 03.10.2025
  with the time text 25:00 raises instead of giving a timestamp, the date text 31.02.2025,
  which holds no calendar date, raises instead of giving \<open>None\<close>, and a single row with
  the time cell 25:00 ends the loop over the rows with that error.
\<close>

theorem parse_datetime_raises:
  "date_substring_at (ustr ''03.10.2025'') 0
   \<and> parse_datetime (ustr ''03.10.2025'') (Some (ustr ''25:00'')) = Inl ValueError
   \<and> date_substring_at (ustr ''31.02.2025'') 0
   \<and> parse_datetime (ustr ''31.02.2025'') None = Inl ValueError
   \<and> parse_rows offline page_url 90 False [example_row[2 := td ''25:00'']] = Inl ValueError"
  using bad_time_row [of offline page_url]
  by (simp add: date_substring_at_def eval_text eval_re parse_datetime_def make_datetime_def
      valid_datetime_def days_in_month_def DAYS_IN_MONTH_def is_leap_def)

section \<open>The default time\<close>

lemma parse_datetime_time:
  assumes "parse_datetime ds (Some ts) = Inr (Some s)"
  shows "time_fields ts = Some (hour s, minute s)"
  using assms
  by (auto simp: parse_datetime_def time_fields_norm make_datetime_def Let_def
      split: option.splits prod.splits if_splits)

lemma parse_row_start:
  assumes "parse_row w url d en tds = Inr (Some r)"
  shows "\<exists>s. parse_datetime (cell_text (tds ! 1))
               (Some (if cell_text (tds ! 2) = [] then ustr ''19:30'' else cell_text (tds ! 2)))
             = Inr (Some s)
           \<and> Start_Time r = fmt_time s"
  using assms
  by (auto simp: parse_row_def row_times_def Let_def
      split: if_splits sum.splits option.splits prod.splits)

lemma time_fields_default: "time_fields (ustr ''19:30'') = Some (19, 30)"
  by (simp add: ustr_def eval_re)

lemma example_row_no_time_record:
  "parse_row w url 90 False example_row_no_time =
     Inr (Some \<lparr>Subject = ustr ''Team A vs. Team B'',
                Start_Date = ustr ''10/03/2025'',
                Start_Time = ustr ''19:30'',
                End_Date = ustr ''10/03/2025'',
                End_Time = ustr ''21:00'',
                All_Day_Event = ustr ''False'',
                Description = ustr ''Spiel Nr.: 12 | Ergebnis: 3:1'',
                Location = ustr ''TU'',
                Private = ustr ''False''\<rparr>)"
proof -
  have t: "row_times example_row_no_time 90 =
     Inr (Some (\<lparr>year = 2025, month = 10, day = 3, hour = 19, minute = 30\<rparr>,
                \<lparr>year = 2025, month = 10, day = 3, hour = 21, minute = 0\<rparr>))"
    by (simp add: row_times_def example_row_no_time_def example_row_def eval_text eval_re eval_dt)
  show ?thesis
    unfolding parse_row_def t
    by (simp add: example_row_no_time_def example_row_def hall_link_cell_def description_of_def
        eval_text eval_re fmt_date_def fmt_time_def two_digits_def year_digits_def)
qed

lemma example_row_open_time_record:
  "parse_row w url 90 False example_row_open_time =
     Inr (Some \<lparr>Subject = ustr ''Team A vs. Team B'',
                Start_Date = ustr ''10/03/2025'',
                Start_Time = ustr ''00:00'',
                End_Date = ustr ''10/03/2025'',
                End_Time = ustr ''01:30'',
                All_Day_Event = ustr ''False'',
                Description = ustr ''Spiel Nr.: 12 | Ergebnis: 3:1'',
                Location = ustr ''TU'',
                Private = ustr ''False''\<rparr>)"
proof -
  have t: "row_times example_row_open_time 90 =
     Inr (Some (\<lparr>year = 2025, month = 10, day = 3, hour = 0, minute = 0\<rparr>,
                \<lparr>year = 2025, month = 10, day = 3, hour = 1, minute = 30\<rparr>))"
    by (simp add: row_times_def example_row_open_time_def example_row_def eval_text eval_re eval_dt)
  show ?thesis
    unfolding parse_row_def t
    by (simp add: example_row_open_time_def example_row_def hall_link_cell_def description_of_def
        eval_text eval_re fmt_date_def fmt_time_def two_digits_def year_digits_def)
qed

text \<open>
  C4. For every row that gives a record: when the normalised time cell is empty the start
  time is the default 19:30; when it is not empty and holds no H(H):MM pattern the start
  time is 00:00, not the default; and when it holds the pattern the start time is the
  hour and minute of the pattern, so the default is applied exactly when the cell is
  empty.
\<close>

theorem time_default:
  assumes "parse_row w url d en tds = Inr (Some r)"
  shows "(cell_text (tds ! 2) = [] \<longrightarrow> Start_Time r = ustr ''19:30'')
     \<and> (cell_text (tds ! 2) \<noteq> [] \<and> TIME_RE_search (cell_text (tds ! 2)) = None
          \<longrightarrow> Start_Time r = ustr ''00:00'')
     \<and> (cell_text (tds ! 2) \<noteq> [] \<and> TIME_RE_search (cell_text (tds ! 2)) = Some (g1, g2)
          \<and> py_int g1 = Some hh \<and> py_int g2 = Some mm
          \<longrightarrow> Start_Time r = two_digits hh @ [58] @ two_digits mm)"
proof -
  from parse_row_start [OF assms] obtain s
    where p: "parse_datetime (cell_text (tds ! 1))
               (Some (if cell_text (tds ! 2) = [] then ustr ''19:30'' else cell_text (tds ! 2)))
             = Inr (Some s)"
      and f: "Start_Time r = fmt_time s"
    by blast
  note tf = parse_datetime_time [OF p]
  have a: "Start_Time r = ustr ''19:30''" if "cell_text (tds ! 2) = []"
  proof -
    from tf that have "hour s = 19" "minute s = 30"
      by (simp_all add: time_fields_default)
    with f show ?thesis by (simp add: fmt_time_def two_digits_def ustr_def)
  qed
  have b: "Start_Time r = ustr ''00:00''"
    if "cell_text (tds ! 2) \<noteq> []" "TIME_RE_search (cell_text (tds ! 2)) = None"
  proof -
    from tf that have "hour s = 0" "minute s = 0"
      by (simp_all add: time_fields_def)
    with f show ?thesis by (simp add: fmt_time_def two_digits_def ustr_def)
  qed
  have c: "Start_Time r = two_digits hh @ [58] @ two_digits mm"
    if "cell_text (tds ! 2) \<noteq> []" "TIME_RE_search (cell_text (tds ! 2)) = Some (g1, g2)"
      "py_int g1 = Some hh" "py_int g2 = Some mm"
  proof -
    from tf that have "hour s = hh" "minute s = mm"
      by (simp_all add: time_fields_def)
    with f show ?thesis by (simp add: fmt_time_def)
  qed
  from a b c show ?thesis by blast
qed

theorem time_default_witness:
  "cell_text (example_row_no_time ! 2) = []
   \<and> Start_Time (the (projr (parse_row offline page_url 90 False example_row_no_time))) = ustr ''19:30''
   \<and> cell_text (example_row_open_time ! 2) \<noteq> []
   \<and> TIME_RE_search (cell_text (example_row_open_time ! 2)) = None
   \<and> Start_Time (the (projr (parse_row offline page_url 90 False example_row_open_time))) = ustr ''00:00''"
proof -
  have e: "cell_text (example_row_no_time ! 2) = []"
    by (simp add: example_row_no_time_def example_row_def eval_text)
  have o: "cell_text (example_row_open_time ! 2) \<noteq> []"
    "TIME_RE_search (cell_text (example_row_open_time ! 2)) = None"
    by (simp_all add: example_row_open_time_def example_row_def eval_text eval_re)
  from time_default [OF example_row_no_time_record [of offline page_url]] e
  have 1: "Start_Time (the (projr (parse_row offline page_url 90 False example_row_no_time)))
      = ustr ''19:30''"
    by (simp add: example_row_no_time_record)
  from time_default [OF example_row_open_time_record [of offline page_url]] o
  have 2: "Start_Time (the (projr (parse_row offline page_url 90 False example_row_open_time)))
      = ustr ''00:00''"
    by (simp add: example_row_open_time_record)
  from e o 1 2 show ?thesis by simp
qed

section \<open>The venue enricher\<close>

lemma collect_blocks_eq:
  assumes "length acc < 3"
  shows "collect_blocks acc sibs
     = acc @ take (3 - length acc) (block_texts (takeWhile (\<lambda>e. \<not> is_h1_4 (tag_name e)) sibs))"
  using assms
proof (induction sibs arbitrary: acc)
  case Nil
  show ?case by (simp add: block_texts_def)
next
  case (Cons sib sibs)
  show ?case
  proof (cases "is_h1_4 (tag_name sib)")
    case True
    then show ?thesis by (simp add: block_texts_def)
  next
    case False
    define ln where "ln = norm (get_text [32] True sib)"
    show ?thesis
    proof (cases "tag_name sib \<in> set [ustr ''p'', ustr ''div'', ustr ''address''] \<and> ln \<noteq> []")
      case block: True
      have bt: "block_texts (takeWhile (\<lambda>e. \<not> is_h1_4 (tag_name e)) (sib # sibs))
          = ln # block_texts (takeWhile (\<lambda>e. \<not> is_h1_4 (tag_name e)) sibs)"
        using False block by (simp add: block_texts_def ln_def)
      show ?thesis
      proof (cases "length (acc @ [ln]) \<ge> 3")
        case True
        with Cons.prems have one: "3 - length acc = Suc 0" by simp
        have cb: "collect_blocks acc (sib # sibs) = acc @ [ln]"
          using False block True by (simp add: ln_def Let_def)
        show ?thesis unfolding cb bt one by simp
      next
        case notfull: False
        then have l: "length (acc @ [ln]) < 3" by simp
        have cb: "collect_blocks acc (sib # sibs) = collect_blocks (acc @ [ln]) sibs"
          using False block notfull by (simp add: ln_def Let_def)
        have d: "3 - length acc = Suc (3 - length (acc @ [ln]))"
          using l by simp
        show ?thesis unfolding cb bt d Cons.IH [OF l] by simp
      qed
    next
      case noblock: False
      have bt: "block_texts (takeWhile (\<lambda>e. \<not> is_h1_4 (tag_name e)) (sib # sibs))
          = block_texts (takeWhile (\<lambda>e. \<not> is_h1_4 (tag_name e)) sibs)"
        using False noblock by (auto simp: block_texts_def ln_def)
      have cb: "collect_blocks acc (sib # sibs) = collect_blocks acc sibs"
        using False noblock Cons.prems by (auto simp: ln_def Let_def)
      show ?thesis unfolding cb bt by (rule Cons.IH [OF Cons.prems])
    qed
  qed
qed

lemma address_lines_no_marker:
  assumes "filter is_marker_heading es = []"
  shows "address_lines es = []"
  using assms by (induction es) (auto simp: is_marker_heading_def split: if_splits)

lemma address_lines_at_marker:
  assumes "filter is_marker_heading pre = []" and "is_marker_heading h"
  shows "address_lines (pre @ h # after) = collect_blocks [] after"
  using assms by (induction pre) (auto simp: is_marker_heading_def split: if_splits)

lemmas eval_html = el_def is_marker_heading_def is_h1_4_def block_texts_def heading_level_def

lemma subheading_eval:
  "address_lines (el ''h2'' ''Hallenadresse'' # after_subheading) = []"
  by (simp add: after_subheading_def eval_html eval_text)

lemma subheading_spec_eval:
  "spec_collect 2 [] after_subheading = [ustr ''Musterstr. 1'']"
  by (simp add: after_subheading_def eval_html eval_text)

lemma example_page_no_marker:
  "filter is_marker_heading (descendants example_page) = []"
  by (simp add: example_page_def example_row_def hall_link_cell_def td_def eval_html
      get_text_def strings_def container_of_def string_containers_def ustr_def)

lemma split_link_eval:
  "hall_address_from_cell example_site split_link_cell page_url
     = Inr (ustr ''TU'' @ [32, 8211, 32] @ ustr ''T U'')"
  by (simp add: hall_address_from_cell_def split_link_cell_def example_site_def fetch_def
      find_tag_def Let_def address_lines_no_marker [OF example_page_no_marker] eval_text)

text \<open>
  C8 as stated fails: the inner loop stops at every \<open>h1\<close> to \<open>h4\<close> tag, whatever the
  level of the marker heading. After an \<open>h2\<close> marker heading, an \<open>h3\<close> subheading ends
  the collection before the paragraph that follows it, while the collection the claim
  describes goes on past the lower heading and takes the paragraph.
\<close>

theorem subheading_counterexample:
  "is_marker_heading (el ''h2'' ''Hallenadresse'')
   \<and> heading_level (tag_name (el ''h2'' ''Hallenadresse'')) = Some 2
   \<and> heading_level (tag_name (after_subheading ! 0)) = Some 3
   \<and> address_lines (el ''h2'' ''Hallenadresse'' # after_subheading) = []
   \<and> spec_collect 2 [] after_subheading = [ustr ''Musterstr. 1'']"
  using subheading_eval subheading_spec_eval
  by (simp add: after_subheading_def eval_html eval_text)

text \<open>
  C8, amended. When the marker heading is found, the lines collected are the first three,
  or all if there are fewer, of the non-empty normalised texts of the \<open>p\<close>, \<open>div\<close> and
  \<open>address\<close> tags that follow the first marker heading in document order and come
  before the next \<open>h1\<close>, \<open>h2\<close>, \<open>h3\<close> or \<open>h4\<close> tag: the collection stops early
  exactly at the first such heading tag, of any level.
\<close>

theorem blocks_after_marker:
  assumes "filter is_marker_heading pre = []" and "is_marker_heading h"
  shows "address_lines (pre @ h # after)
     = take 3 (block_texts (takeWhile (\<lambda>e. \<not> is_h1_4 (tag_name e)) after))"
  using address_lines_at_marker [OF assms] collect_blocks_eq [of "[]" after] by simp

theorem blocks_after_marker_witness:
  "address_lines hall_tags = [ustr ''Musterstr. 1'', ustr ''13353 Berlin'']"
proof -
  have 1: "filter is_marker_heading [el ''h1'' ''Sporthalle''] = []"
    by (simp add: eval_html eval_text)
  have 2: "is_marker_heading (el ''h2'' ''Hallenadresse'')"
    by (simp add: eval_html eval_text)
  have 3: "take 3 (block_texts (takeWhile (\<lambda>e. \<not> is_h1_4 (tag_name e))
        [el ''p'' ''Musterstr. 1'', el ''span'' ''Eingang B'', el ''div'' ''13353 Berlin'',
         el ''h5'' ''Hinweis'', el ''h2'' ''Kontakt'', el ''p'' ''Tel. 030'']))
      = [ustr ''Musterstr. 1'', ustr ''13353 Berlin'']"
    by (simp add: eval_html eval_text)
  from blocks_after_marker [OF 1 2] 3 show ?thesis
    by (simp add: hall_tags_def)
qed

text \<open>
  What \<open>hall_address_from_cell\<close> returns in the three cases of failure: without a link
  with a target, and when the request fails, the text of the cell; when the page has no
  marker heading, the text of the cell, with the link text and a dash before it when the
  link text is not found in it.
\<close>

lemma hall_fallback_cases:
  "(find_tag (ustr ''a'') cell = None
      \<longrightarrow> hall_address_from_cell w cell url = Inr (cell_text cell))
   \<and> (find_tag (ustr ''a'') cell = Some a
        \<and> (map_of (attrs a) (ustr ''href'') = None \<or> map_of (attrs a) (ustr ''href'') = Some [])
      \<longrightarrow> hall_address_from_cell w cell url = Inr (cell_text cell))
   \<and> (find_tag (ustr ''a'') cell = Some a \<and> map_of (attrs a) (ustr ''href'') = Some href
        \<and> href \<noteq> [] \<and> url_join w url href = Inr hall_url \<and> fetch w hall_url = Inl err
      \<longrightarrow> hall_address_from_cell w cell url = Inr (cell_text cell))
   \<and> (find_tag (ustr ''a'') cell = Some a \<and> map_of (attrs a) (ustr ''href'') = Some href
        \<and> href \<noteq> [] \<and> url_join w url href = Inr hall_url \<and> fetch w hall_url = Inr html
        \<and> filter is_marker_heading (descendants (html_parser w html)) = []
      \<longrightarrow> hall_address_from_cell w cell url
            = Inr (if norm (get_text [] True a) \<noteq> []
                      \<and> \<not> py_in (norm (get_text [] True a)) (cell_text cell)
                   then norm (get_text [] True a) @ [32, 8211, 32] @ cell_text cell
                   else cell_text cell))"
  by (auto simp: hall_address_from_cell_def cell_text_def Let_def address_lines_no_marker)

lemma hall_fallback_examples:
  "hall_address_from_cell offline (td ''TU'') page_url = Inr (ustr ''TU'')
   \<and> hall_address_from_cell offline hall_link_cell page_url = Inr (ustr ''TU'')
   \<and> hall_address_from_cell example_site hall_link_cell page_url = Inr (ustr ''TU'')"
proof -
  define a where "a = Elem (ustr ''a'') [(ustr ''href'', ustr ''/halle/1'')] [Text (ustr ''TU'')]"
  have f0: "find_tag (ustr ''a'') (td ''TU'') = None"
    by (simp add: find_tag_def td_def ustr_def)
  have f1: "find_tag (ustr ''a'') hall_link_cell = Some a"
    by (simp add: find_tag_def hall_link_cell_def a_def ustr_def)
  have h: "map_of (attrs a) (ustr ''href'') = Some (ustr ''/halle/1'')" "ustr ''/halle/1'' \<noteq> []"
    by (simp_all add: a_def ustr_def)
  have j1: "url_join offline page_url (ustr ''/halle/1'') = Inr (ustr ''/halle/1'')"
    "fetch offline (ustr ''/halle/1'') = Inl RequestError"
    by (simp_all add: offline_def fetch_def)
  have j2: "url_join example_site page_url (ustr ''/halle/1'') = Inr (ustr ''/halle/1'')"
    "fetch example_site (ustr ''/halle/1'') = Inr (ustr ''<html>'')"
    "filter is_marker_heading (descendants (html_parser example_site (ustr ''<html>''))) = []"
    using example_page_no_marker by (simp_all add: example_site_def fetch_def)
  have t: "cell_text (td ''TU'') = ustr ''TU''" "cell_text hall_link_cell = ustr ''TU''"
    "norm (get_text [] True a) = ustr ''TU''" "py_in (ustr ''TU'') (ustr ''TU'')"
    by (simp_all add: hall_link_cell_def a_def eval_text)
  from hall_fallback_cases [of "td ''TU''" offline page_url] f0 t
  have 1: "hall_address_from_cell offline (td ''TU'') page_url = Inr (ustr ''TU'')"
    by simp
  from hall_fallback_cases [of hall_link_cell offline page_url a "ustr ''/halle/1''" "ustr ''/halle/1''"
      RequestError] f1 h j1 t
  have 2: "hall_address_from_cell offline hall_link_cell page_url = Inr (ustr ''TU'')"
    by simp
  from hall_fallback_cases [of hall_link_cell example_site page_url a "ustr ''/halle/1''"
      "ustr ''/halle/1''" _ "ustr ''<html>''"] f1 h j2 t
  have 3: "hall_address_from_cell example_site hall_link_cell page_url = Inr (ustr ''TU'')"
    by simp
  from 1 2 3 show ?thesis by simp
qed

text \<open>
  C7. The claim is that without a link, after a failed request, or without a marker
  heading on the page, the result is exactly the normalised text of the cell. The code
  does not do so in the third case for a link whose text is split over several tags: the
  text of the cell joins the pieces with a space, the code of the hall joins them without,
  so the code is not found in the text and is put before it.
\<close>

theorem split_link_fallback:
  "find_tag (ustr ''a'') split_link_cell \<noteq> None
   \<and> fetch example_site (ustr ''/halle/1'') = Inr (ustr ''<html>'')
   \<and> filter is_marker_heading (descendants (html_parser example_site (ustr ''<html>''))) = []
   \<and> cell_text split_link_cell = ustr ''T U''
   \<and> hall_address_from_cell example_site split_link_cell page_url
       = Inr (ustr ''TU'' @ [32, 8211, 32] @ ustr ''T U'')
   \<and> hall_address_from_cell example_site split_link_cell page_url
       \<noteq> Inr (cell_text split_link_cell)"
  using split_link_eval example_page_no_marker
  by (simp add: split_link_cell_def example_site_def fetch_def find_tag_def eval_text)

section \<open>Reading the CSV file back\<close>

















end
